theory Spec2Isabelle
  imports Complex_Main "HOL-Library.Word"
begin

section \<open>Values, exceptions and normalisation\<close>

text \<open>
  The scan API of \<^verbatim>\<open>ophyd/userapi/scan_api.py\<close>. Setpoints are Python/numpy floats;
  they are modelled as exact rationals. A raised exception is the \<open>Inl\<close> branch of a
  sum.

  The sample counts are Python ints that \<^verbatim>\<open>np.asarray\<close> stores in an array of
  64-bit signed integers (the default integer of numpy on 64-bit Linux); they are modelled
  as 64-bit words, read as signed numbers by \<open>sint\<close>. Arithmetic on such an array,
  \<^verbatim>\<open>+ 1\<close> and \<^verbatim>\<open>prod()\<close>, wraps around silently, as \<open>+\<close> and \<open>*\<close> on words do.
  Memory is not bounded: an array of any length can be built.
\<close>

type_synonym int64 = "64 word"

datatype exn = ValueError | IndexError | AttributeError | Failure string

text \<open>A user argument is either a scalar or a sequence (\<^verbatim>\<open>hasattr(i, "__iter__")\<close>).\<close>

datatype 'a arg = Scalar 'a | Seq "'a list"

fun ensure_iterator :: "'a arg \<Rightarrow> 'a list" where
  "ensure_iterator (Seq xs) = xs"
| "ensure_iterator (Scalar x) = [x]"

section \<open>The numpy operations used by the generator\<close>

text \<open>
  \<^verbatim>\<open>np.linspace(start, stop, num)\<close>: \<^verbatim>\<open>step = (stop - start) / (num - 1)\<close>,
  \<^verbatim>\<open>y = arange(0, num) * step + start\<close>, and the last element is overwritten by
  \<^verbatim>\<open>stop\<close> when \<^verbatim>\<open>num > 1\<close>. A negative \<^verbatim>\<open>num\<close> raises ValueError.
\<close>

definition np_linspace :: "rat \<Rightarrow> rat \<Rightarrow> int \<Rightarrow> exn + rat list" where
  "np_linspace start stop num =
     (if num < 0 then Inl ValueError
      else if num = 0 then Inr []
      else if num = 1 then Inr [start]
      else (let step = (stop - start) / of_int (num - 1);
                y = map (\<lambda>i. of_nat i * step + start) [0..<nat num]
            in Inr (y[nat num - 1 := stop])))"

text \<open>\<^verbatim>\<open>np.repeat(a, r)\<close> repeats every element \<^verbatim>\<open>r\<close> times in place.\<close>

definition np_repeat :: "rat list \<Rightarrow> int \<Rightarrow> exn + rat list" where
  "np_repeat a r =
     (if r < 0 then Inl ValueError
      else Inr (concat (map (replicate (nat r)) a)))"

text \<open>\<^verbatim>\<open>np.tile(a, reps)\<close> lays \<^verbatim>\<open>reps\<close> copies of the whole array end to end.\<close>

definition np_tile :: "rat list \<Rightarrow> int \<Rightarrow> exn + rat list" where
  "np_tile a reps =
     (if a = [] then Inr []
      else if reps < 0 then Inl ValueError
      else Inr (concat (replicate (nat reps) a)))"

section \<open>ScanND: path calculation\<close>

definition calcLinearPath :: "rat \<Rightarrow> rat \<Rightarrow> int \<Rightarrow> exn + rat list" where
  "calcLinearPath start stop npts = np_linspace start stop npts"

text \<open>
  \<^verbatim>\<open>calculatePath(start, stop, npts, dim)\<close>: \<^verbatim>\<open>npts[dim]\<close> raises IndexError out of
  range; \<^verbatim>\<open>x = N[::-1][:len(N)-dim-1]\<close> and \<^verbatim>\<open>y = N[:dim]\<close>. The products
  \<^verbatim>\<open>x.prod()\<close> and \<^verbatim>\<open>y.prod()\<close> are taken in 64-bit arithmetic (the product
  of an empty array is 1) and handed on as signed numbers. The parameter \<^verbatim>\<open>dim\<close> is
  written \<open>dm\<close>.
\<close>

definition calculatePath :: "rat \<Rightarrow> rat \<Rightarrow> int64 list \<Rightarrow> nat \<Rightarrow> exn + rat list" where
  "calculatePath start stop npts dm =
     (let N = npts in
      if dm < length npts then
        (case calcLinearPath start stop (sint (npts ! dm)) of
           Inl e \<Rightarrow> Inl e
         | Inr a \<Rightarrow>
             (let x = take (length N - dm - 1) (rev N);
                  y = take dm N
              in case np_repeat a (sint (prod_list x)) of
                   Inl e \<Rightarrow> Inl e
                 | Inr a' \<Rightarrow> np_tile a' (sint (prod_list y))))
      else Inl IndexError)"

type_synonym ref = nat

text \<open>
  The two nested loops of \<^verbatim>\<open>ScanND.__call__\<close>: for every dimension \<^verbatim>\<open>d\<close>, every
  positioner of the group \<^verbatim>\<open>positioners[d]\<close> is appended together with the path of
  that dimension.
\<close>

fun group_loop ::
  "rat \<Rightarrow> rat \<Rightarrow> int64 list \<Rightarrow> nat \<Rightarrow> ref list \<Rightarrow> ref list \<times> rat list list
     \<Rightarrow> exn + ref list \<times> rat list list" where
  "group_loop b e npts d [] acc = Inr acc"
| "group_loop b e npts d (p # ps) (pos, paths) =
     (case calculatePath b e npts d of
        Inl ex \<Rightarrow> Inl ex
      | Inr path \<Rightarrow> group_loop b e npts d ps (pos @ [p], paths @ [path]))"

fun dimension_loop ::
  "ref arg list \<Rightarrow> int64 list \<Rightarrow> (rat \<times> rat \<times> nat) list \<Rightarrow> ref list \<times> rat list list
     \<Rightarrow> exn + ref list \<times> rat list list" where
  "dimension_loop positioners npts [] acc = Inr acc"
| "dimension_loop positioners npts ((b, e, d) # rest) acc =
     (if d < length positioners then
        (case group_loop b e npts d (ensure_iterator (positioners ! d)) acc of
           Inl ex \<Rightarrow> Inl ex
         | Inr acc' \<Rightarrow> dimension_loop positioners npts rest acc')
      else Inl IndexError)"

text \<open>
  The part of \<^verbatim>\<open>ScanND.__call__\<close> before \<^verbatim>\<open>self.run()\<close>: normalisation,
  \<^verbatim>\<open>npts = np.asarray(npts) + 1\<close> (a 64-bit addition), and the loops over
  \<^verbatim>\<open>zip(start, stop, range(dimension))\<close>.
\<close>

definition ScanND_call_paths ::
  "ref arg arg \<Rightarrow> rat arg \<Rightarrow> rat arg \<Rightarrow> int64 arg \<Rightarrow> exn + ref list \<times> rat list list" where
  "ScanND_call_paths positioners start stop npts =
     (let npts1 = ensure_iterator npts;
          positioners1 = ensure_iterator positioners;
          start1 = ensure_iterator start;
          stop1 = ensure_iterator stop;
          dimension = length npts1;
          npts2 = map (\<lambda>n. n + 1) npts1
      in dimension_loop positioners1 npts2 (zip start1 (zip stop1 [0..<dimension])) ([], []))"

section \<open>The replication steps in the words of the specification\<close>

text \<open>
  The specification describes the generator by an inner repeat (every element repeated
  consecutively) and an outer tile (the whole sequence repeated end to end), with factors
  the products of the effective sample counts of the faster and of the slower dimensions.
  The effective sample count of a dimension is its sample count plus one; counts and
  products are those of the integers, without bound.
\<close>

definition effective_counts :: "int64 list \<Rightarrow> int list" where
  "effective_counts cs = map (\<lambda>c. sint c + 1) cs"

text \<open>
  A linearly spaced sequence of \<open>n\<close> points evenly covering the interval from \<open>b\<close> to
  \<open>e\<close>, both end points included.
\<close>

definition linear_points :: "rat \<Rightarrow> rat \<Rightarrow> nat \<Rightarrow> rat list" where
  "linear_points b e n = map (\<lambda>j. b + of_nat j * (e - b) / of_nat (n - 1)) [0..<n]"

definition inner_repeat :: "nat \<Rightarrow> 'a list \<Rightarrow> 'a list" where
  "inner_repeat k xs = concat (map (replicate k) xs)"

definition outer_tile :: "nat \<Rightarrow> 'a list \<Rightarrow> 'a list" where
  "outer_tile m xs = concat (replicate m xs)"

definition faster_factor :: "int list \<Rightarrow> nat \<Rightarrow> nat" where
  "faster_factor N d = nat (prod_list (drop (Suc d) N))"

definition slower_factor :: "int list \<Rightarrow> nat \<Rightarrow> nat" where
  "slower_factor N d = nat (prod_list (take d N))"

text \<open>
  The trajectory of dimension \<open>d\<close> and the whole output of the generator as the
  specification describes them: the positioners of the groups in order, each with the
  trajectory of its dimension.
\<close>

definition grid_trajectory :: "rat \<Rightarrow> rat \<Rightarrow> int list \<Rightarrow> nat \<Rightarrow> rat list" where
  "grid_trajectory b e N d =
     outer_tile (slower_factor N d) (inner_repeat (faster_factor N d) (linear_points b e (nat (N ! d))))"

definition grid_generator ::
  "ref arg list \<Rightarrow> rat list \<Rightarrow> rat list \<Rightarrow> int64 list \<Rightarrow> ref list \<times> rat list list" where
  "grid_generator groups starts stops counts =
     (let N = effective_counts counts;
          dims = [0..<length counts]
      in (concat (map (\<lambda>d. ensure_iterator (groups ! d)) dims),
          concat (map (\<lambda>d. replicate (length (ensure_iterator (groups ! d)))
                                (grid_trajectory (starts ! d) (stops ! d) N d)) dims)))"

section \<open>Positioners and the outside world\<close>

text \<open>
  A positioner object lives in a store indexed by references; the scan only holds the
  references, so a trajectory assigned to a positioner is seen by everyone holding it.
\<close>

datatype pkind = EpicsMotor | PVPositioner | OtherPositioner

record positioner =
  position :: rat
  setpoint :: rat
  moving :: bool
  trajectory :: "rat list option"
  online :: bool
  kind :: pkind
  read_pvname :: "string list"

record world =
  devices :: "ref \<Rightarrow> positioner"
  move_log :: "(ref \<times> rat \<times> bool) list"
  clock :: string
  olog_online :: bool
  olog :: "string list"
  stdout :: "string list"

text \<open>
  Modelled from the spec: the positioner class (\<^verbatim>\<open>ophyd.controls\<close>) is not among the
  sources. Its capability boundary is \<^verbatim>\<open>position -> number\<close>,
  \<^verbatim>\<open>moving -> boolean\<close>, \<^verbatim>\<open>move(target, wait) -> void\<close> (move to a target and
  optionally block until arrival) and \<^verbatim>\<open>set_trajectory(sequence) -> void\<close>. A
  positioner that cannot be reached raises on every access.
\<close>

definition offline :: exn where
  "offline = Failure ''positioner offline''"

text \<open>Modelled from the spec: \<^verbatim>\<open>position -> number\<close>, the current position.\<close>

definition dev_position :: "ref \<Rightarrow> world \<Rightarrow> exn + rat" where
  "dev_position p w = (if online (devices w p) then Inr (position (devices w p)) else Inl offline)"

text \<open>Modelled from the spec: \<^verbatim>\<open>moving -> boolean\<close>, whether the positioner is in motion.\<close>

definition dev_moving :: "ref \<Rightarrow> world \<Rightarrow> exn + bool" where
  "dev_moving p w = (if online (devices w p) then Inr (moving (devices w p)) else Inl offline)"

text \<open>
  Modelled from the spec: \<^verbatim>\<open>move(target, wait)\<close> moves to the target and, with
  \<^verbatim>\<open>wait\<close>, blocks until arrival: the positioner is then at the target and at rest.
  Without \<^verbatim>\<open>wait\<close> the call returns with the motion under way. Every command is
  logged.
\<close>

definition dev_move :: "ref \<Rightarrow> rat \<Rightarrow> bool \<Rightarrow> world \<Rightarrow> (exn + unit) \<times> world" where
  "dev_move p target wait w =
     (if online (devices w p) then
        (let d = devices w p;
             d' = (if wait then d\<lparr>position := target, setpoint := target, moving := False\<rparr>
                   else d\<lparr>setpoint := target, moving := True\<rparr>)
         in (Inr (), w\<lparr>devices := (devices w)(p := d'), move_log := move_log w @ [(p, target, wait)]\<rparr>))
      else (Inl offline, w))"

text \<open>Modelled from the spec: \<^verbatim>\<open>set_trajectory(sequence)\<close> stores the setpoints.\<close>

definition dev_set_trajectory :: "ref \<Rightarrow> rat list \<Rightarrow> world \<Rightarrow> (exn + unit) \<times> world" where
  "dev_set_trajectory p path w =
     (if online (devices w p) then
        (Inr (), w\<lparr>devices := (devices w)(p := (devices w p)\<lparr>trajectory := Some path\<rparr>)\<rparr>)
      else (Inl offline, w))"

definition print :: "string \<Rightarrow> world \<Rightarrow> world" where
  "print msg w = w\<lparr>stdout := stdout w @ [msg]\<rparr>"

text \<open>
  Modelled from the spec: the logbook client (\<^verbatim>\<open>pyOlog.SimpleOlogClient\<close>) is the
  external notification sink; logging appends an entry or raises when the sink is down.
\<close>

definition olog_log :: "string \<Rightarrow> world \<Rightarrow> (exn + unit) \<times> world" where
  "olog_log msg w =
     (if olog_online w then (Inr (), w\<lparr>olog := olog w @ [msg]\<rparr>)
      else (Inl (Failure ''olog unavailable''), w))"

section \<open>The Scan object\<close>

datatype dataset = Dataset nat

record scan =
  priv_last_data :: "dataset option"
  priv_triggers :: "ref list option"
  priv_detectors :: "ref list option"
  priv_default_detectors :: "ref list"
  priv_default_triggers :: "ref list"
  settle_time :: "rat option"
  priv_paths :: "rat list list"
  priv_positioners :: "ref list"
  priv_run_id :: int
  dimension_attr :: "nat option"
  priv_start_positions :: "rat list option"

text \<open>
  \<^verbatim>\<open>Scan.__init__\<close> (and \<^verbatim>\<open>ScanND.__init__\<close>, which adds \<^verbatim>\<open>dimension = None\<close>). The
  field \<open>priv_x\<close> is the attribute \<^verbatim>\<open>_x\<close>; \<open>priv_start_positions\<close> is \<open>None\<close> while
  the attribute \<^verbatim>\<open>_start_positions\<close> does not exist yet.
\<close>

definition Scan_init :: scan where
  "Scan_init =
     \<lparr>priv_last_data = None, priv_triggers = None, priv_detectors = None,
      priv_default_detectors = [], priv_default_triggers = [], settle_time = None,
      priv_paths = [], priv_positioners = [], priv_run_id = 0, dimension_attr = None,
      priv_start_positions = None\<rparr>"

text \<open>The properties of \<^verbatim>\<open>Scan\<close>: getters and setters.\<close>

definition Scan_run_id :: "scan \<Rightarrow> int" where
  "Scan_run_id s = priv_run_id s"

definition Scan_data :: "scan \<Rightarrow> dataset option" where
  "Scan_data s = priv_last_data s"

definition set_data :: "dataset option \<Rightarrow> scan \<Rightarrow> scan" where
  "set_data d s = s\<lparr>priv_last_data := d\<rparr>"

definition Scan_default_triggers :: "scan \<Rightarrow> ref list" where
  "Scan_default_triggers s = priv_default_triggers s"

definition set_default_triggers :: "ref list \<Rightarrow> scan \<Rightarrow> scan" where
  "set_default_triggers trig s = s\<lparr>priv_default_triggers := trig\<rparr>"

definition Scan_default_detectors :: "scan \<Rightarrow> ref list" where
  "Scan_default_detectors s = priv_default_detectors s"

definition set_default_detectors :: "ref list \<Rightarrow> scan \<Rightarrow> scan" where
  "set_default_detectors det s = s\<lparr>priv_default_detectors := det\<rparr>"

definition Scan_triggers :: "scan \<Rightarrow> ref list" where
  "Scan_triggers s =
     (case priv_triggers s of
        None \<Rightarrow> priv_default_triggers s
      | Some t \<Rightarrow> t @ Scan_default_triggers s)"

definition set_triggers :: "ref list option \<Rightarrow> scan \<Rightarrow> scan" where
  "set_triggers t s = s\<lparr>priv_triggers := t\<rparr>"

definition Scan_detectors :: "scan \<Rightarrow> ref list" where
  "Scan_detectors s =
     (case priv_detectors s of
        None \<Rightarrow> priv_default_detectors s
      | Some d \<Rightarrow> d @ priv_default_detectors s)"

definition set_detectors :: "ref list option \<Rightarrow> scan \<Rightarrow> scan" where
  "set_detectors d s = s\<lparr>priv_detectors := d\<rparr>"

definition Scan_positioners :: "scan \<Rightarrow> ref list" where
  "Scan_positioners s = priv_positioners s"

definition set_positioners :: "ref list \<Rightarrow> scan \<Rightarrow> scan" where
  "set_positioners ps s = s\<lparr>priv_positioners := ps\<rparr>"

definition Scan_paths :: "scan \<Rightarrow> rat list list" where
  "Scan_paths s = priv_paths s"

definition set_paths :: "rat list list \<Rightarrow> scan \<Rightarrow> scan" where
  "set_paths ps s = s\<lparr>priv_paths := ps\<rparr>"

section \<open>Methods, hooks and the trace of calls\<close>

text \<open>
  A method takes the scan object and the world and, when it returns at all, gives its
  outcome (\<open>Inl\<close> an exception) together with the object and the world as it left them:
  what a method changed before raising stays changed. \<open>None\<close> is a call that never
  returns. The overridable methods of a class form its hook table.
\<close>

type_synonym 'a meth = "scan \<Rightarrow> world \<Rightarrow> ((exn + 'a) \<times> scan \<times> world) option"

record hooks =
  checkPaths :: "unit meth"
  preScan :: "unit meth"
  postScan :: "unit meth"
  setupDetectors :: "unit meth"
  setupTriggers :: "unit meth"

datatype val = VNone | VNum rat | VRefs "ref list"

type_synonym scan_args = "(string \<times> val) list"

text \<open>The execution engine is external: \<^verbatim>\<open>start_run(run_id, scan_args) -> dataset\<close>.\<close>

type_synonym engine = "int \<Rightarrow> scan_args \<Rightarrow> world \<Rightarrow> ((exn + dataset) \<times> world) option"

text \<open>
  Every call that \<^verbatim>\<open>run\<close> makes is recorded with its outcome, in order; the record
  is kept outside the reach of the hooks.
\<close>

datatype call =
  CheckPaths | PreScan | PostScan | SetupDetectors | SetupTriggers
  | SetTrajectory ref "rat list" | StartRun int scan_args

datatype outcome = Returned | ReturnedData dataset | Raised exn

type_synonym event = "call \<times> outcome"

type_synonym 'a traced = "scan \<Rightarrow> world \<Rightarrow> (event list \<times> (exn + 'a) \<times> scan \<times> world) option"

definition call_method :: "call \<Rightarrow> unit meth \<Rightarrow> unit traced" where
  "call_method c m s w =
     (case m s w of
        None \<Rightarrow> None
      | Some (r, s', w') \<Rightarrow>
          Some ([(c, case r of Inl e \<Rightarrow> Raised e | Inr _ \<Rightarrow> Returned)], r, s', w'))"

text \<open>The hooks of the base class: \<^verbatim>\<open>pass\<close>.\<close>

definition Scan_pass :: "unit meth" where
  "Scan_pass s w = Some (Inr (), s, w)"

definition Scan_hooks :: hooks where
  "Scan_hooks =
     \<lparr>checkPaths = Scan_pass, preScan = Scan_pass, postScan = Scan_pass,
      setupDetectors = Scan_pass, setupTriggers = Scan_pass\<rparr>"

section \<open>Scan.run\<close>

text \<open>
  \<^verbatim>\<open>for pos, path in zip(self.positioners, self.paths): pos.set_trajectory(path)\<close>
\<close>

fun set_trajectories :: "(ref \<times> rat list) list \<Rightarrow> world \<Rightarrow> event list \<times> (exn + unit) \<times> world" where
  "set_trajectories [] w = ([], Inr (), w)"
| "set_trajectories ((pos, path) # rest) w =
     (case dev_set_trajectory pos path w of
        (Inl e, w') \<Rightarrow> ([(SetTrajectory pos path, Raised e)], Inl e, w')
      | (Inr _, w') \<Rightarrow>
          (case set_trajectories rest w' of
             (tr, r, w'') \<Rightarrow> ((SetTrajectory pos path, Returned) # tr, r, w'')))"

text \<open>The dictionary \<^verbatim>\<open>scan_args\<close>, in the order its keys are assigned.\<close>

definition build_scan_args :: "scan \<Rightarrow> scan_args" where
  "build_scan_args s =
     [(''detectors'', VRefs (Scan_detectors s)),
      (''triggers'', VRefs (Scan_triggers s)),
      (''positioners'', VRefs (Scan_positioners s)),
      (''settle_time'', case settle_time s of None \<Rightarrow> VNone | Some t \<Rightarrow> VNum t)]"

text \<open>
  The body of the \<^verbatim>\<open>with self:\<close> block. The dataset is assigned only when
  \<^verbatim>\<open>start_run\<close> returns.
\<close>

definition run_body :: "hooks \<Rightarrow> engine \<Rightarrow> unit traced" where
  "run_body h eng s w =
     (case call_method SetupDetectors (setupDetectors h) s w of
        None \<Rightarrow> None
      | Some (t1, Inl e, s1, w1) \<Rightarrow> Some (t1, Inl e, s1, w1)
      | Some (t1, Inr _, s1, w1) \<Rightarrow>
     (case call_method SetupTriggers (setupTriggers h) s1 w1 of
        None \<Rightarrow> None
      | Some (t2, Inl e, s2, w2) \<Rightarrow> Some (t1 @ t2, Inl e, s2, w2)
      | Some (t2, Inr _, s2, w2) \<Rightarrow>
     (case set_trajectories (zip (Scan_positioners s2) (Scan_paths s2)) w2 of
        (t3, Inl e, w3) \<Rightarrow> Some (t1 @ t2 @ t3, Inl e, s2, w3)
      | (t3, Inr _, w3) \<Rightarrow>
     (let scan_args = build_scan_args s2;
          rid = priv_run_id s2 + 1
      in case eng rid scan_args w3 of
           None \<Rightarrow> None
         | Some (Inl e, w4) \<Rightarrow>
             Some (t1 @ t2 @ t3 @ [(StartRun rid scan_args, Raised e)], Inl e, s2, w4)
         | Some (Inr d, w4) \<Rightarrow>
             Some (t1 @ t2 @ t3 @ [(StartRun rid scan_args, ReturnedData d)], Inr (),
                   set_data (Some d) s2, w4)))))"

text \<open>\<^verbatim>\<open>__enter__\<close> calls \<^verbatim>\<open>preScan\<close>; \<^verbatim>\<open>__exit__\<close> calls \<^verbatim>\<open>postScan\<close> and returns False.\<close>

definition Scan_enter :: "hooks \<Rightarrow> unit traced" where
  "Scan_enter h = call_method PreScan (preScan h)"

definition Scan_exit :: "hooks \<Rightarrow> bool traced" where
  "Scan_exit h s w =
     (case call_method PostScan (postScan h) s w of
        None \<Rightarrow> None
      | Some (t, Inl e, s', w') \<Rightarrow> Some (t, Inl e, s', w')
      | Some (t, Inr _, s', w') \<Rightarrow> Some (t, Inr False, s', w'))"

text \<open>
  Python's \<^verbatim>\<open>with\<close> statement: when \<^verbatim>\<open>__enter__\<close> raises, neither the body nor
  \<^verbatim>\<open>__exit__\<close> runs; otherwise \<^verbatim>\<open>__exit__\<close> runs however the body ended. An exception
  raised by \<^verbatim>\<open>__exit__\<close> replaces the one of the body; a true result of \<^verbatim>\<open>__exit__\<close>
  suppresses it.
\<close>

definition with_stmt :: "unit traced \<Rightarrow> bool traced \<Rightarrow> unit traced \<Rightarrow> unit traced" where
  "with_stmt enter exit body s w =
     (case enter s w of
        None \<Rightarrow> None
      | Some (t1, Inl e, s1, w1) \<Rightarrow> Some (t1, Inl e, s1, w1)
      | Some (t1, Inr _, s1, w1) \<Rightarrow>
     (case body s1 w1 of
        None \<Rightarrow> None
      | Some (t2, r, s2, w2) \<Rightarrow>
     (case exit s2 w2 of
        None \<Rightarrow> None
      | Some (t3, Inl e', s3, w3) \<Rightarrow> Some (t1 @ t2 @ t3, Inl e', s3, w3)
      | Some (t3, Inr suppress, s3, w3) \<Rightarrow>
          Some (t1 @ t2 @ t3,
                (case r of Inl e \<Rightarrow> if suppress then Inr () else Inl e | Inr u \<Rightarrow> Inr u),
                s3, w3))))"

definition Scan_run :: "hooks \<Rightarrow> engine \<Rightarrow> unit traced" where
  "Scan_run h eng s w =
     (case call_method CheckPaths (checkPaths h) s w of
        None \<Rightarrow> None
      | Some (t0, Inl e, s0, w0) \<Rightarrow> Some (t0, Inl e, s0, w0)
      | Some (t0, Inr _, s0, w0) \<Rightarrow>
          (case with_stmt (Scan_enter h) (Scan_exit h) (run_body h eng) s0 w0 of
             None \<Rightarrow> None
           | Some (t, r, s1, w1) \<Rightarrow> Some (t0 @ t, r, s1, w1)))"

text \<open>\<^verbatim>\<open>ScanND.__call__\<close>: compute the paths, store them, run.\<close>

definition ScanND_call ::
  "hooks \<Rightarrow> engine \<Rightarrow> ref arg arg \<Rightarrow> rat arg \<Rightarrow> rat arg \<Rightarrow> int64 arg \<Rightarrow> unit traced" where
  "ScanND_call h eng positioners start stop npts s w =
     (case ScanND_call_paths positioners start stop npts of
        Inl e \<Rightarrow> Some ([], Inl e, s, w)
      | Inr (pos, paths) \<Rightarrow> Scan_run h eng (set_paths paths (set_positioners pos s)) w)"

section \<open>AScan and DScan\<close>

text \<open>
  \<^verbatim>\<open>AScan.preScan\<close>: build the message from the time and the PV names of the motors,
  print it and log it.
\<close>

definition newline :: string where
  "newline = [CHR 0x0A]"

definition pv_lines :: "world \<Rightarrow> ref \<Rightarrow> string" where
  "pv_lines w p =
     (if kind (devices w p) = EpicsMotor \<or> kind (devices w p) = PVPositioner
      then concat (map (\<lambda>pv. ''PV:'' @ pv @ newline) (read_pvname (devices w p)))
      else [])"

definition AScan_preScan :: "unit meth" where
  "AScan_preScan s w =
     (let time_text = clock w;
          msg = ''Scan started at '' @ time_text @ newline @ newline @ ''==='' @ newline
                  @ concat (map (pv_lines w) (Scan_positioners s));
          w1 = print msg w
      in case olog_log msg w1 of (r, w2) \<Rightarrow> Some (r, s, w2))"

definition AScan_hooks :: hooks where
  "AScan_hooks = Scan_hooks\<lparr>preScan := AScan_preScan\<rparr>"

text \<open>\<^verbatim>\<open>[p.position for p in self.positioners]\<close>: the first failing read raises.\<close>

fun read_positions :: "ref list \<Rightarrow> world \<Rightarrow> exn + rat list" where
  "read_positions [] w = Inr []"
| "read_positions (p # ps) w =
     (case dev_position p w of
        Inl e \<Rightarrow> Inl e
      | Inr x \<Rightarrow> (case read_positions ps w of Inl e \<Rightarrow> Inl e | Inr xs \<Rightarrow> Inr (x # xs)))"

definition DScan_preScan :: "unit meth" where
  "DScan_preScan s w =
     (case read_positions (Scan_positioners s) w of
        Inl e \<Rightarrow> Some (Inl e, s, w)
      | Inr starts \<Rightarrow>
          (let s1 = s\<lparr>priv_start_positions := Some starts\<rparr>;
               s2 = set_paths (map (\<lambda>(path, start). map (\<lambda>r. r + start) path)
                                (zip (Scan_paths s1) starts)) s1
           in AScan_preScan s2 w))"

text \<open>\<^verbatim>\<open>for pos, start in zip(...): pos.move(start, wait=True)\<close>\<close>

fun move_back :: "(ref \<times> rat) list \<Rightarrow> world \<Rightarrow> (exn + unit) \<times> world" where
  "move_back [] w = (Inr (), w)"
| "move_back ((pos, start) # rest) w =
     (case dev_move pos start True w of
        (Inl e, w') \<Rightarrow> (Inl e, w')
      | (Inr _, w') \<Rightarrow> move_back rest w')"

text \<open>\<^verbatim>\<open>[p.moving for p in self.positioners]\<close>\<close>

fun read_moving :: "ref list \<Rightarrow> world \<Rightarrow> exn + bool list" where
  "read_moving [] w = Inr []"
| "read_moving (p # ps) w =
     (case dev_moving p w of
        Inl e \<Rightarrow> Inl e
      | Inr x \<Rightarrow> (case read_moving ps w of Inl e \<Rightarrow> Inl e | Inr xs \<Rightarrow> Inr (x # xs)))"

text \<open>
  The polling loop \<^verbatim>\<open>while any([p.moving ...]): sleep(0.1)\<close>. What the hardware does
  during one sleep is the parameter \<open>tick\<close>; the loop has no bound, so it may never
  return.
\<close>

partial_function (option) wait_while_moving ::
  "(world \<Rightarrow> world) \<Rightarrow> ref list \<Rightarrow> world \<Rightarrow> ((exn + unit) \<times> world) option" where
  "wait_while_moving tick ps w =
     (case read_moving ps w of
        Inl e \<Rightarrow> Some (Inl e, w)
      | Inr flags \<Rightarrow>
          if list_ex (\<lambda>b. b) flags then wait_while_moving tick ps (tick w)
          else Some (Inr (), w))"

definition DScan_postScan :: "(world \<Rightarrow> world) \<Rightarrow> unit meth" where
  "DScan_postScan tick s w =
     (case priv_start_positions s of
        None \<Rightarrow> Some (Inl AttributeError, s, w)
      | Some starts \<Rightarrow>
          (case move_back (zip (Scan_positioners s) starts) w of
             (Inl e, w1) \<Rightarrow> Some (Inl e, s, w1)
           | (Inr _, w1) \<Rightarrow>
               (let w2 = print (newline @ ''Moving positioners back to start positions.'') w1
                in case wait_while_moving tick (Scan_positioners s) w2 of
                     None \<Rightarrow> None
                   | Some (Inl e, w3) \<Rightarrow> Some (Inl e, s, w3)
                   | Some (Inr _, w3) \<Rightarrow> Some (Inr (), s, print ''Done.'' w3))))"

definition DScan_hooks :: "(world \<Rightarrow> world) \<Rightarrow> hooks" where
  "DScan_hooks tick = AScan_hooks\<lparr>preScan := DScan_preScan, postScan := DScan_postScan tick\<rparr>"

section \<open>Reading a trace\<close>

definition calls_of :: "call \<Rightarrow> event list \<Rightarrow> nat" where
  "calls_of c tr = length (filter (\<lambda>ev. fst ev = c) tr)"

fun is_StartRun :: "call \<Rightarrow> bool" where
  "is_StartRun (StartRun rid args) = True"
| "is_StartRun _ = False"

fun is_SetTrajectory :: "call \<Rightarrow> bool" where
  "is_SetTrajectory (SetTrajectory p path) = True"
| "is_SetTrajectory _ = False"

definition requests :: "event list \<Rightarrow> call list" where
  "requests tr = filter is_StartRun (map fst tr)"

definition assignments :: "event list \<Rightarrow> call list" where
  "assignments tr = filter is_SetTrajectory (map fst tr)"

definition observed ::
  "(event list \<times> (exn + unit) \<times> scan \<times> world) option \<Rightarrow> (event list \<times> (exn + unit) \<times> scan) option" where
  "observed r = map_option (\<lambda>(tr, res, s, w). (tr, res, s)) r"

text \<open>A hook that leaves the scan object, or one of its attributes, as it found it.\<close>

definition keeps_scan :: "unit meth \<Rightarrow> bool" where
  "keeps_scan m = (\<forall>s w r s' w'. m s w = Some (r, s', w') \<longrightarrow> s' = s)"

definition keeps_data :: "unit meth \<Rightarrow> bool" where
  "keeps_data m = (\<forall>s w r s' w'. m s w = Some (r, s', w') \<longrightarrow> priv_last_data s' = priv_last_data s)"

definition hooks_keep_scan :: "hooks \<Rightarrow> bool" where
  "hooks_keep_scan h =
     (keeps_scan (checkPaths h) \<and> keeps_scan (preScan h) \<and> keeps_scan (postScan h) \<and>
      keeps_scan (setupDetectors h) \<and> keeps_scan (setupTriggers h))"

definition hooks_keep_data :: "hooks \<Rightarrow> bool" where
  "hooks_keep_data h =
     (keeps_data (checkPaths h) \<and> keeps_data (preScan h) \<and> keeps_data (postScan h) \<and>
      keeps_data (setupDetectors h) \<and> keeps_data (setupTriggers h))"

text \<open>
  A hook, or the engine, that returns on every call, normally or by raising: it never
  hangs.
\<close>

definition returns :: "unit meth \<Rightarrow> bool" where
  "returns m = (\<forall>s w. m s w \<noteq> None)"

definition hooks_return :: "hooks \<Rightarrow> bool" where
  "hooks_return h =
     (returns (checkPaths h) \<and> returns (preScan h) \<and> returns (postScan h) \<and>
      returns (setupDetectors h) \<and> returns (setupTriggers h))"

definition engine_returns :: "engine \<Rightarrow> bool" where
  "engine_returns eng = (\<forall>rid args w. eng rid args w \<noteq> None)"

section \<open>Test doubles\<close>

text \<open>A \<^verbatim>\<open>setupDetectors\<close> override that selects the detectors of the scan.\<close>

definition choose_detectors :: "ref list \<Rightarrow> unit meth" where
  "choose_detectors ds s w = Some (Inr (), set_detectors (Some ds) s, w)"

definition raising :: "string \<Rightarrow> unit meth" where
  "raising msg s w = Some (Inl (Failure msg), s, w)"

definition echo_engine :: engine where
  "echo_engine rid scan_args w = Some (Inr (Dataset (nat rid)), w)"

definition failing_engine :: "string \<Rightarrow> engine" where
  "failing_engine msg rid scan_args w = Some (Inl (Failure msg), w)"

definition idle_positioner :: positioner where
  "idle_positioner =
     \<lparr>position = 0, setpoint = 0, moving = False, trajectory = None, online = True,
      kind = OtherPositioner, read_pvname = []\<rparr>"

definition quiet_world :: world where
  "quiet_world =
     \<lparr>devices = (\<lambda>p. idle_positioner), move_log = [], clock = ''Thu, 01 Jan 2015 00:00:00 UTC'',
      olog_online = True, olog = [], stdout = []\<rparr>"

definition no_tick :: "world \<Rightarrow> world" where
  "no_tick w = w"

definition lab_world :: world where
  "lab_world = quiet_world\<lparr>devices := (\<lambda>p. idle_positioner\<lparr>position := 10 * of_nat p + 10\<rparr>)\<rparr>"

definition scanned_world :: world where
  "scanned_world =
     quiet_world\<lparr>devices := (\<lambda>p. idle_positioner\<lparr>position := 99, moving := True\<rparr>)\<rparr>"

definition dark_world :: world where
  "dark_world = quiet_world\<lparr>devices := (\<lambda>p. idle_positioner\<lparr>online := False\<rparr>)\<rparr>"

section \<open>Facts about the generator\<close>

lemma np_linspace_eq:
  assumes "0 \<le> num"
  shows "np_linspace s e num = Inr (linear_points s e (nat num))"
proof -
  consider "num = 0" | "num = 1" | "2 \<le> num" using assms by linarith
  then show ?thesis
  proof cases
    case 1
    then show ?thesis by (simp add: np_linspace_def linear_points_def)
  next
    case 2
    then show ?thesis by (simp add: np_linspace_def linear_points_def)
  next
    case 3
    let ?n = "nat num"
    have cast: "(of_nat (?n - 1) :: rat) = of_int (num - 1)" using 3 by (simp add: of_nat_diff)
    have ne: "(of_int (num - 1) :: rat) \<noteq> 0" using 3 by simp
    have "(map (\<lambda>i. of_nat i * ((e - s) / of_int (num - 1)) + s) [0..<?n])[?n - 1 := e]
            = linear_points s e ?n"
    proof (rule nth_equalityI)
      show "length ((map (\<lambda>i. of_nat i * ((e - s) / of_int (num - 1)) + s) [0..<?n])[?n - 1 := e])
              = length (linear_points s e ?n)"
        by (simp add: linear_points_def)
    next
      fix i
      assume "i < length ((map (\<lambda>i. of_nat i * ((e - s) / of_int (num - 1)) + s) [0..<?n])[?n - 1 := e])"
      then have i: "i < ?n" by simp
      show "(map (\<lambda>i. of_nat i * ((e - s) / of_int (num - 1)) + s) [0..<?n])[?n - 1 := e] ! i
              = linear_points s e ?n ! i"
      proof (cases "i = ?n - 1")
        case True
        have "s + of_int (num - 1) * (e - s) / of_int (num - 1) = e" using ne by simp
        with True i show ?thesis by (simp add: linear_points_def cast)
      next
        case False
        with i show ?thesis by (simp add: linear_points_def cast add.commute)
      qed
    qed
    with 3 show ?thesis by (simp add: np_linspace_def Let_def)
  qed
qed

lemma length_linear_points: "length (linear_points b e n) = n"
  by (simp add: linear_points_def)

lemma length_inner_repeat: "length (inner_repeat k xs) = k * length xs"
  unfolding inner_repeat_def by (induction xs) auto

lemma length_outer_tile: "length (outer_tile m xs) = m * length xs"
  unfolding outer_tile_def by (induction m) auto

lemma inner_repeat_nth:
  "i < k * length xs \<Longrightarrow> inner_repeat k xs ! i = xs ! (i div k)"
  unfolding inner_repeat_def
proof (induction xs arbitrary: i)
  case Nil
  then show ?case by simp
next
  case (Cons x xs)
  show ?case
  proof (cases "i < k")
    case True
    then show ?thesis by (simp add: nth_append)
  next
    case False
    then have ge: "k \<le> i" by simp
    from Cons.prems have pos: "0 < k" by (cases k) auto
    from Cons.prems ge have "i - k < k * length xs" by simp
    then have "concat (map (replicate k) xs) ! (i - k) = xs ! ((i - k) div k)"
      by (rule Cons.IH)
    moreover have "i div k = Suc ((i - k) div k)"
      using ge pos by (simp add: le_div_geq)
    ultimately show ?thesis using False by (simp add: nth_append)
  qed
qed

lemma outer_tile_nth:
  "i < m * length xs \<Longrightarrow> outer_tile m xs ! i = xs ! (i mod length xs)"
  unfolding outer_tile_def
proof (induction m arbitrary: i)
  case 0
  then show ?case by simp
next
  case (Suc m)
  show ?case
  proof (cases "i < length xs")
    case True
    then show ?thesis by (simp add: nth_append)
  next
    case False
    then have ge: "length xs \<le> i" by simp
    with Suc.prems have "i - length xs < m * length xs" by simp
    then have "concat (replicate m xs) ! (i - length xs) = xs ! ((i - length xs) mod length xs)"
      by (rule Suc.IH)
    moreover have "(i - length xs) mod length xs = i mod length xs"
      using ge by (simp add: le_mod_geq)
    ultimately show ?thesis using False by (simp add: nth_append)
  qed
qed

text \<open>Products of positive integers: every partial product is bounded by the whole.\<close>

lemma prod_list_ge1: "\<forall>n\<in>set (N::int list). 1 \<le> n \<Longrightarrow> 1 \<le> prod_list N"
proof (induction N)
  case Nil
  then show ?case by simp
next
  case (Cons a N)
  then have "1 \<le> a" "1 \<le> prod_list N" by simp_all
  then have "1 * 1 \<le> a * prod_list N" by (intro mult_mono) simp_all
  then show ?case by simp
qed

lemma prod_list_take_drop:
  assumes "\<forall>n\<in>set (N::int list). 1 \<le> n"
  shows "1 \<le> prod_list (take k N)" "1 \<le> prod_list (drop k N)"
        "prod_list (take k N) \<le> prod_list N" "prod_list (drop k N) \<le> prod_list N"
proof -
  show t: "1 \<le> prod_list (take k N)"
    using assms by (intro prod_list_ge1) (auto dest: in_set_takeD)
  show d: "1 \<le> prod_list (drop k N)"
    using assms by (intro prod_list_ge1) (auto dest: in_set_dropD)
  have "prod_list N = prod_list (take k N @ drop k N)" by simp
  also have "\<dots> = prod_list (take k N) * prod_list (drop k N)" by (simp only: prod_list.append)
  finally have split: "prod_list N = prod_list (take k N) * prod_list (drop k N)" .
  show "prod_list (take k N) \<le> prod_list N"
    using t d by (simp add: split mult_le_cancel_left1)
  show "prod_list (drop k N) \<le> prod_list N"
    using t d by (simp add: split mult_le_cancel_right1)
qed

lemma member_le_prod_list:
  assumes "\<forall>n\<in>set (N::int list). 1 \<le> n" and "n \<in> set N"
  shows "n \<le> prod_list N"
  using assms
proof (induction N)
  case Nil
  then show ?case by simp
next
  case (Cons a N)
  from Cons.prems have a: "1 \<le> a" and r: "\<forall>n\<in>set N. 1 \<le> n" by simp_all
  from r have p: "1 \<le> prod_list N" by (rule prod_list_ge1)
  show ?case
  proof (cases "n = a")
    case True
    with a p show ?thesis by (simp add: mult_le_cancel_left1)
  next
    case False
    with Cons have "n \<le> prod_list N" by simp
    moreover have "prod_list N \<le> a * prod_list N" using a p by (simp add: mult_le_cancel_right1)
    ultimately show ?thesis by simp
  qed
qed

lemma prod_list_split:
  "dm < length (N::int list) \<Longrightarrow> prod_list N = prod_list (take dm N) * (N ! dm * prod_list (drop (Suc dm) N))"
proof -
  assume "dm < length N"
  then have "N = take dm N @ N ! dm # drop (Suc dm) N" by (rule id_take_nth_drop)
  then have "prod_list N = prod_list (take dm N @ N ! dm # drop (Suc dm) N)" by simp
  then show ?thesis by (simp only: prod_list.append prod_list.Cons)
qed

text \<open>64-bit arithmetic agrees with the integers as long as the results stay in range.\<close>

lemma word_prod_list: "prod_list (xs :: int64 list) = word_of_int (prod_list (map sint xs))"
  by (induction xs) simp_all

lemma sint_in_range: "0 \<le> k \<Longrightarrow> k < 2 ^ 63 \<Longrightarrow> sint (word_of_int k :: int64) = k"
  by (simp add: sint_sbintrunc' signed_take_bit_int_eq_self)

lemma sint_succ:
  assumes "0 \<le> sint (c::int64)" and "sint c + 1 < 2 ^ 63"
  shows "sint (c + 1) = sint c + 1"
proof -
  have "c + 1 = word_of_int (sint c + 1)" by simp
  then have "sint (c + 1) = sint (word_of_int (sint c + 1) :: int64)" by simp
  also have "\<dots> = sint c + 1" using assms by (intro sint_in_range) simp_all
  finally show ?thesis .
qed

lemma sint_prod_list:
  assumes "\<forall>n\<in>set (xs::int64 list). 1 \<le> sint n" and "prod_list (map sint xs) < 2 ^ 63"
  shows "sint (prod_list xs) = prod_list (map sint xs)"
proof -
  from assms(1) have "1 \<le> prod_list (map sint xs)" by (intro prod_list_ge1) auto
  then have "sint (word_of_int (prod_list (map sint xs)) :: int64) = prod_list (map sint xs)"
    using assms(2) by (intro sint_in_range) simp_all
  then show ?thesis by (simp flip: word_prod_list)
qed

lemma sint_partial_products:
  assumes nn: "\<forall>n\<in>set (N::int64 list). 1 \<le> sint n" and bd: "prod_list (map sint N) < 2 ^ 63"
  shows "sint (prod_list (take k N)) = prod_list (take k (map sint N))"
        "sint (prod_list (drop k N)) = prod_list (drop k (map sint N))"
proof -
  from nn have pos: "\<forall>n\<in>set (map sint N). 1 \<le> n" by auto
  have "prod_list (map sint (take k N)) < 2 ^ 63"
    using prod_list_take_drop(3)[OF pos, of k] bd by (simp add: take_map)
  moreover have "\<forall>n\<in>set (take k N). 1 \<le> sint n" using nn by (auto dest: in_set_takeD)
  ultimately show "sint (prod_list (take k N)) = prod_list (take k (map sint N))"
    by (simp add: sint_prod_list take_map)
  have "prod_list (map sint (drop k N)) < 2 ^ 63"
    using prod_list_take_drop(4)[OF pos, of k] bd by (simp add: drop_map)
  moreover have "\<forall>n\<in>set (drop k N). 1 \<le> sint n" using nn by (auto dest: in_set_dropD)
  ultimately show "sint (prod_list (drop k N)) = prod_list (drop k (map sint N))"
    by (simp add: sint_prod_list drop_map)
qed

text \<open>
  The array \<^verbatim>\<open>np.asarray(npts) + 1\<close> holds the effective sample counts when they
  stay in range.
\<close>

lemma effective_counts_in_range:
  assumes nn: "\<forall>c\<in>set counts. 0 \<le> sint c" and bd: "prod_list (effective_counts counts) < 2 ^ 63"
  shows "map sint (map (\<lambda>n. n + 1) counts) = effective_counts counts"
    and "\<forall>n\<in>set (map (\<lambda>n. n + 1) counts). 1 \<le> sint n"
    and "prod_list (map sint (map (\<lambda>n. n + 1) counts)) < 2 ^ 63"
proof -
  have pos: "\<forall>n\<in>set (effective_counts counts). 1 \<le> n"
    using nn by (auto simp: effective_counts_def)
  have each: "sint (c + 1) = sint c + 1" if "c \<in> set counts" for c
  proof -
    from that have "sint c + 1 \<in> set (effective_counts counts)" by (auto simp: effective_counts_def)
    from member_le_prod_list[OF pos this] bd have "sint c + 1 < 2 ^ 63" by simp
    with nn that show ?thesis by (intro sint_succ) simp_all
  qed
  then show eq: "map sint (map (\<lambda>n. n + 1) counts) = effective_counts counts"
    by (simp add: effective_counts_def)
  show "\<forall>n\<in>set (map (\<lambda>n. n + 1) counts). 1 \<le> sint n"
    using each nn by auto
  show "prod_list (map sint (map (\<lambda>n. n + 1) counts)) < 2 ^ 63"
    using bd by (simp only: eq)
qed

lemma reversed_prefix_prod:
  "dm < length (N::int64 list) \<Longrightarrow> prod_list (take (length N - Suc dm) (rev N)) = prod_list (drop (Suc dm) N)"
  by (simp add: take_rev prod_list.rev)

lemma calculatePath_eq:
  assumes d: "dm < length N" and nn: "\<forall>n\<in>set N. 1 \<le> sint n"
    and bd: "prod_list (map sint N) < 2 ^ 63"
  shows "calculatePath start stop N dm = Inr (grid_trajectory start stop (map sint N) dm)"
proof -
  from d nn have "0 \<le> sint (N ! dm)" by (simp add: order_trans[of 0 1])
  then have lin: "np_linspace start stop (sint (N ! dm))
                    = Inr (linear_points start stop (nat (sint (N ! dm))))"
    by (rule np_linspace_eq)
  from nn have pos: "\<forall>n\<in>set (map sint N). 1 \<le> n" by auto
  note pp = sint_partial_products[OF nn bd]
  have f: "0 \<le> prod_list (drop (Suc dm) (map sint N))"
    using prod_list_take_drop(2)[OF pos, of "Suc dm"] by simp
  have s: "0 \<le> prod_list (take dm (map sint N))"
    using prod_list_take_drop(1)[OF pos, of dm] by simp
  show ?thesis
    using d lin f s
    by (simp add: calculatePath_def calcLinearPath_def Let_def reversed_prefix_prod pp
        np_repeat_def np_tile_def outer_tile_def inner_repeat_def faster_factor_def
        slower_factor_def grid_trajectory_def)
qed

lemma length_grid_trajectory:
  assumes d: "dm < length N" and pos: "\<forall>n\<in>set N. 1 \<le> n"
  shows "int (length (grid_trajectory b e N dm)) = prod_list N"
proof -
  from d pos have a: "0 \<le> N ! dm" by (simp add: order_trans[of 0 1])
  have f: "0 \<le> prod_list (drop (Suc dm) N)"
    using prod_list_take_drop(2)[OF pos, of "Suc dm"] by simp
  have s: "0 \<le> prod_list (take dm N)"
    using prod_list_take_drop(1)[OF pos, of dm] by simp
  have "int (length (grid_trajectory b e N dm))
        = prod_list (take dm N) * (prod_list (drop (Suc dm) N) * (N ! dm))"
    using a f s
    by (simp add: grid_trajectory_def length_outer_tile length_inner_repeat
        length_linear_points faster_factor_def slower_factor_def)
  also have "\<dots> = prod_list N" using prod_list_split[OF d] by (simp add: mult.commute)
  finally show ?thesis .
qed

lemma group_loop_ok:
  "calculatePath b e npts d = Inr path \<Longrightarrow>
   group_loop b e npts d ps (pos, paths) = Inr (pos @ ps, paths @ replicate (length ps) path)"
proof (induction ps arbitrary: pos paths)
  case Nil then show ?case by simp
next
  case (Cons p ps)
  then show ?case by (simp add: replicate_app_Cons_same)
qed

text \<open>
  The loop over the dimensions, whenever it returns: every dimension visited had a
  positioner group, and the output is the groups with the trajectories of their
  dimensions.
\<close>

lemma dimension_loop_ok:
  assumes "\<forall>(b, e, d)\<in>set triples. d < length npts" and "\<forall>n\<in>set npts. 1 \<le> sint n"
    and "prod_list (map sint npts) < 2 ^ 63"
    and "dimension_loop positioners npts triples (pos, paths) = Inr (pos', paths')"
  shows "(\<forall>(b, e, d)\<in>set triples. d < length positioners) \<and>
         pos' = pos @ concat (map (\<lambda>(b, e, d). ensure_iterator (positioners ! d)) triples) \<and>
         paths' = paths @ concat (map (\<lambda>(b, e, d). replicate (length (ensure_iterator (positioners ! d)))
                                         (grid_trajectory b e (map sint npts) d)) triples)"
  using assms
proof (induction triples arbitrary: pos paths)
  case Nil
  then show ?case by simp
next
  case (Cons tr rest)
  obtain b e d where tr: "tr = (b, e, d)" by (cases tr) auto
  from Cons.prems tr have d: "d < length npts" by simp
  note path = calculatePath_eq[OF d Cons.prems(2,3), of b e]
  let ?g = "ensure_iterator (positioners ! d)"
  let ?t = "grid_trajectory b e (map sint npts) d"
  from Cons.prems(4) tr have dp: "d < length positioners" by (simp split: if_splits)
  have step: "group_loop b e npts d ?g (pos, paths) = Inr (pos @ ?g, paths @ replicate (length ?g) ?t)"
    using path by (rule group_loop_ok)
  from Cons.prems(4) tr dp step
  have rest: "dimension_loop positioners npts rest (pos @ ?g, paths @ replicate (length ?g) ?t)
                = Inr (pos', paths')"
    by simp
  from Cons.prems(1) have r1: "\<forall>(b, e, d)\<in>set rest. d < length npts" by simp
  from Cons.IH[OF r1 Cons.prems(2,3) rest] tr dp show ?case by simp
qed

lemma dimension_loop_returns:
  assumes "\<forall>(b, e, d)\<in>set triples. d < length npts \<and> d < length positioners"
    and "\<forall>n\<in>set npts. 1 \<le> sint n" and "prod_list (map sint npts) < 2 ^ 63"
  shows "\<exists>r. dimension_loop positioners npts triples acc = Inr r"
  using assms
proof (induction triples arbitrary: acc)
  case Nil
  then show ?case by simp
next
  case (Cons tr rest)
  obtain b e d where tr: "tr = (b, e, d)" by (cases tr) auto
  obtain pos paths where acc: "acc = (pos, paths)" by (cases acc) auto
  from Cons.prems tr have d: "d < length npts" "d < length positioners" by simp_all
  note path = calculatePath_eq[OF d(1) Cons.prems(2,3), of b e]
  from Cons.prems(1) have r1: "\<forall>(b, e, d)\<in>set rest. d < length npts \<and> d < length positioners" by simp
  show ?case using tr acc d group_loop_ok[OF path] Cons.IH[OF r1 Cons.prems(2,3)] by simp
qed

lemma map_zip3_index:
  assumes "length xs = D" "length ys = D"
  shows "map (\<lambda>(b, e, d). f b e d) (zip xs (zip ys [0..<D])) = map (\<lambda>d. f (xs ! d) (ys ! d) d) [0..<D]"
  using assms by (intro nth_equalityI) simp_all

lemma map_nth_prefix: "D \<le> length P \<Longrightarrow> map ((!) P) [0..<D] = take D P"
  by (rule nth_equalityI) auto

lemma groups_visited:
  assumes "D \<le> length P"
  shows "concat (map (\<lambda>d. ensure_iterator (P ! d)) [0..<D]) = concat (map ensure_iterator (take D P))"
proof -
  have "map (\<lambda>d. ensure_iterator (P ! d)) [0..<D] = map ensure_iterator (map ((!) P) [0..<D])"
    by simp
  also have "map ((!) P) [0..<D] = take D P" using assms by (rule map_nth_prefix)
  finally show ?thesis by simp
qed

text \<open>
  The generator on a dimension specification whose grid size stays in range: whatever it
  returns is the output the specification describes, and it returns when every dimension
  has a positioner group.
\<close>

lemma ScanND_call_paths_eq:
  assumes ls: "length (ensure_iterator start) = length (ensure_iterator npts)"
    and le: "length (ensure_iterator stop) = length (ensure_iterator npts)"
    and nn: "\<forall>c\<in>set (ensure_iterator npts). 0 \<le> sint c"
    and bd: "prod_list (effective_counts (ensure_iterator npts)) < 2 ^ 63"
  shows "ScanND_call_paths positioners start stop npts = Inr r \<Longrightarrow>
           r = grid_generator (ensure_iterator positioners) (ensure_iterator start)
                 (ensure_iterator stop) (ensure_iterator npts)"
    and "length (ensure_iterator npts) \<le> length (ensure_iterator positioners) \<Longrightarrow>
           ScanND_call_paths positioners start stop npts =
             Inr (grid_generator (ensure_iterator positioners) (ensure_iterator start)
                    (ensure_iterator stop) (ensure_iterator npts))"
proof -
  let ?c = "ensure_iterator npts" and ?P = "ensure_iterator positioners"
  let ?b = "ensure_iterator start" and ?e = "ensure_iterator stop"
  let ?N = "map (\<lambda>n. n + 1) ?c"
  let ?tr = "zip ?b (zip ?e [0..<length ?c])"
  note rng = effective_counts_in_range[OF nn bd]
  have call: "ScanND_call_paths positioners start stop npts = dimension_loop ?P ?N ?tr ([], [])"
    by (simp add: ScanND_call_paths_def Let_def)
  have dims: "\<forall>(b, e, d)\<in>set ?tr. d < length ?N"
    by (auto dest!: set_zip_rightD)
  have g1: "concat (map (\<lambda>(b, e, d). ensure_iterator (?P ! d)) ?tr)
              = concat (map (\<lambda>d. ensure_iterator (?P ! d)) [0..<length ?c])"
    using map_zip3_index[OF ls le, of "\<lambda>b e d. ensure_iterator (?P ! d)"] by simp
  have g2: "concat (map (\<lambda>(b, e, d). replicate (length (ensure_iterator (?P ! d)))
                                         (grid_trajectory b e (map sint ?N) d)) ?tr)
              = concat (map (\<lambda>d. replicate (length (ensure_iterator (?P ! d)))
                                    (grid_trajectory (?b ! d) (?e ! d) (effective_counts ?c) d))
                         [0..<length ?c])"
    using map_zip3_index[OF ls le, of "\<lambda>b e d. replicate (length (ensure_iterator (?P ! d)))
                                         (grid_trajectory b e (map sint ?N) d)"]
    by (simp only: rng(1))
  have ok: "r = grid_generator ?P ?b ?e ?c" if "dimension_loop ?P ?N ?tr ([], []) = Inr r" for r
  proof -
    obtain pos paths where r: "r = (pos, paths)" by (cases r) auto
    from dimension_loop_ok[OF dims rng(2,3) that[unfolded r]]
    have "pos = concat (map (\<lambda>(b, e, d). ensure_iterator (?P ! d)) ?tr)"
      and "paths = concat (map (\<lambda>(b, e, d). replicate (length (ensure_iterator (?P ! d)))
                                         (grid_trajectory b e (map sint ?N) d)) ?tr)"
      by simp_all
    then show ?thesis by (simp only: r g1 g2 grid_generator_def Let_def)
  qed
  show "ScanND_call_paths positioners start stop npts = Inr r \<Longrightarrow> r = grid_generator ?P ?b ?e ?c"
    using ok call by simp
  show "ScanND_call_paths positioners start stop npts = Inr (grid_generator ?P ?b ?e ?c)"
    if "length ?c \<le> length ?P"
  proof -
    have "\<forall>(b, e, d)\<in>set ?tr. d < length ?N \<and> d < length ?P"
      using that by (auto dest!: set_zip_rightD)
    from dimension_loop_returns[OF this rng(2,3)] obtain r where
      r: "dimension_loop ?P ?N ?tr ([], []) = Inr r" by blast
    with ok[OF r] call show ?thesis by simp
  qed
qed

lemma grid_generator_lengths:
  assumes "\<forall>c\<in>set counts. 0 \<le> sint c"
  shows "length (snd (grid_generator groups starts stops counts))
           = length (fst (grid_generator groups starts stops counts))"
    and "\<forall>t\<in>set (snd (grid_generator groups starts stops counts)).
           int (length t) = prod_list (effective_counts counts)"
proof -
  have pos: "\<forall>n\<in>set (effective_counts counts). 1 \<le> n"
    using assms by (auto simp: effective_counts_def)
  have len: "length (effective_counts counts) = length counts" by (simp add: effective_counts_def)
  show "length (snd (grid_generator groups starts stops counts))
           = length (fst (grid_generator groups starts stops counts))"
    by (simp add: grid_generator_def Let_def length_concat comp_def)
  show "\<forall>t\<in>set (snd (grid_generator groups starts stops counts)).
           int (length t) = prod_list (effective_counts counts)"
    using length_grid_trajectory[OF _ pos] len
    by (auto simp: grid_generator_def Let_def)
qed

lemma digit_of_index: "0 < F \<Longrightarrow> (i mod (F * L)) div F = (i div F) mod (L::nat)"
  by (simp add: mod_mult2_eq)

lemma path_nth:
  assumes "i < S * (F * length lin)"
  shows "outer_tile S (inner_repeat F lin) ! i = lin ! ((i div F) mod length lin)"
proof -
  from assms have F: "0 < F" and L: "0 < length lin" by (cases F; cases lin; simp)+
  have "outer_tile S (inner_repeat F lin) ! i = inner_repeat F lin ! (i mod (F * length lin))"
    using assms by (simp add: outer_tile_nth length_inner_repeat)
  also have "\<dots> = lin ! ((i mod (F * length lin)) div F)"
    using F L by (intro inner_repeat_nth) simp
  also have "(i mod (F * length lin)) div F = (i div F) mod length lin"
    using F by (rule digit_of_index)
  finally show ?thesis .
qed

text \<open>
  The point at index \<open>i\<close> of the trajectory of dimension \<open>d\<close>: the digit of \<open>i\<close> at
  position \<open>d\<close> in the mixed-radix (row-major) numbering selects the point of the linear
  sequence.
\<close>

lemma grid_trajectory_nth:
  assumes d: "d < length N" and pos: "\<forall>n\<in>set N. 1 \<le> n" and i: "i < nat (prod_list N)"
  shows "grid_trajectory b e N d ! i
           = b + of_nat ((i div faster_factor N d) mod nat (N ! d)) * (e - b) / of_nat (nat (N ! d) - 1)"
proof -
  let ?lin = "linear_points b e (nat (N ! d))"
  from d pos have n: "1 \<le> N ! d" by simp
  have f: "1 \<le> prod_list (drop (Suc d) N)" using prod_list_take_drop(2)[OF pos] .
  have s: "1 \<le> prod_list (take d N)" using prod_list_take_drop(1)[OF pos] .
  have total: "nat (prod_list N) = slower_factor N d * (faster_factor N d * length ?lin)"
    using prod_list_split[OF d] f s n
    by (simp add: slower_factor_def faster_factor_def nat_mult_distrib mult.commute
        length_linear_points)
  have "grid_trajectory b e N d ! i = ?lin ! ((i div faster_factor N d) mod length ?lin)"
    unfolding grid_trajectory_def using i total by (intro path_nth) simp
  moreover have "(i div faster_factor N d) mod nat (N ! d) < nat (N ! d)" using n by simp
  ultimately show ?thesis by (simp add: length_linear_points) (simp add: linear_points_def)
qed

lemma slow_dimension_path: "calculatePath 0 1 [2, 3] 0 = Inr [0, 0, 0, 1, 1, 1]"
  by code_simp

lemma fast_dimension_path: "calculatePath 0 10 [2, 3] (Suc 0) = Inr [0, 5, 10, 0, 5, 10]"
  by code_simp

lemma overflowing_dimension_path: "calculatePath 0 1 [2, 4294967296, 4294967296] 0 = Inr []"
  by (simp add: calculatePath_def calcLinearPath_def np_linspace_def np_repeat_def np_tile_def
      Let_def)

section \<open>Claims about the trajectory generator\<close>

text \<open>
  Claim C2, as amended. For every valid dimension specification (starts, stops and sample
  counts of equal length after normalisation, every sample count at least 1) whose grid
  size, the product over all dimensions of the sample count plus one, is below \<open>2^63\<close>:
  whatever the generator returns has as many trajectories as positioners, and every
  trajectory has length the grid size. When there is a positioner group for every
  dimension the generator does return, and the positioners emitted are those of the
  groups in order.
\<close>

theorem trajectory_lengths:
  assumes "length (ensure_iterator start) = length (ensure_iterator npts)"
    and "length (ensure_iterator stop) = length (ensure_iterator npts)"
    and "\<forall>c\<in>set (ensure_iterator npts). 1 \<le> sint c"
    and "prod_list (effective_counts (ensure_iterator npts)) < 2 ^ 63"
  shows "(\<forall>pos paths. ScanND_call_paths positioners start stop npts = Inr (pos, paths) \<longrightarrow>
            length paths = length pos \<and>
            (\<forall>t\<in>set paths. int (length t) = prod_list (map (\<lambda>c. sint c + 1) (ensure_iterator npts)))) \<and>
         (length (ensure_iterator npts) \<le> length (ensure_iterator positioners) \<longrightarrow>
            (\<exists>paths. ScanND_call_paths positioners start stop npts =
               Inr (concat (map ensure_iterator
                      (take (length (ensure_iterator npts)) (ensure_iterator positioners))), paths)))"
proof -
  let ?c = "ensure_iterator npts" and ?P = "ensure_iterator positioners"
  let ?G = "grid_generator ?P (ensure_iterator start) (ensure_iterator stop) ?c"
  from assms(3) have nn: "\<forall>c\<in>set ?c. 0 \<le> sint c" by (auto intro: order_trans[of 0 1])
  note gen = ScanND_call_paths_eq[OF assms(1,2) nn assms(4)]
  note len = grid_generator_lengths[OF nn, of ?P "ensure_iterator start" "ensure_iterator stop"]
  have first: "length paths = length pos \<and>
               (\<forall>t\<in>set paths. int (length t) = prod_list (map (\<lambda>c. sint c + 1) ?c))"
    if "ScanND_call_paths positioners start stop npts = Inr (pos, paths)" for pos paths
  proof -
    from gen(1)[OF that] have "(pos, paths) = ?G" .
    then have "pos = fst ?G" "paths = snd ?G" by (metis fst_conv, metis snd_conv)
    with len show ?thesis by (simp add: effective_counts_def)
  qed
  have second: "\<exists>paths. ScanND_call_paths positioners start stop npts =
               Inr (concat (map ensure_iterator (take (length ?c) ?P)), paths)"
    if le: "length ?c \<le> length ?P"
  proof -
    have "fst ?G = concat (map ensure_iterator (take (length ?c) ?P))"
      using groups_visited[OF le] by (simp add: grid_generator_def Let_def)
    with gen(2)[OF le] show ?thesis by (metis prod.collapse)
  qed
  from first second show ?thesis by blast
qed

theorem trajectory_lengths_witness:
  "length (ensure_iterator (Seq [0, 0::rat])) = length (ensure_iterator (Seq [1, 2::int64])) \<and>
   length (ensure_iterator (Seq [1, 10::rat])) = length (ensure_iterator (Seq [1, 2::int64])) \<and>
   list_all (\<lambda>c. 1 \<le> sint c) (ensure_iterator (Seq [1, 2::int64])) \<and>
   prod_list (effective_counts (ensure_iterator (Seq [1, 2::int64]))) < 2 ^ 63 \<and>
   (\<exists>paths. ScanND_call_paths (Seq [Scalar 7, Seq [8, 9]]) (Seq [0, 0]) (Seq [1, 10]) (Seq [1, 2])
      = Inr ([7, 8, 9], paths) \<and> length paths = 3 \<and> list_all (\<lambda>t. length t = 6) paths)"
  using trajectory_lengths[of "Seq [0, 0]" "Seq [1, 2]" "Seq [1, 10]" "Seq [Scalar 7, Seq [8, 9]]"]
  by (auto simp: list_all_iff effective_counts_def)

text \<open>
  Claim C2 as stated fails: the products are taken in 64-bit arithmetic. With sample
  counts 1, \<open>2^32 - 1\<close> and \<open>2^32 - 1\<close>, and a positioner on the first dimension only, the
  specification is valid and the grid size is \<open>2^65\<close>, but the repeat factor \<open>2^64\<close> wraps
  to 0 and the generator returns one trajectory of length 0.
\<close>

theorem overflowing_grid_has_empty_trajectory:
  "length (ensure_iterator (Seq [0, 0, 0::rat]))
     = length (ensure_iterator (Seq [1, 2 ^ 32 - 1, 2 ^ 32 - 1::int64])) \<and>
   length (ensure_iterator (Seq [1, 1, 1::rat]))
     = length (ensure_iterator (Seq [1, 2 ^ 32 - 1, 2 ^ 32 - 1::int64])) \<and>
   list_all (\<lambda>c. 1 \<le> sint c) (ensure_iterator (Seq [1, 2 ^ 32 - 1, 2 ^ 32 - 1::int64])) \<and>
   ScanND_call_paths (Seq [Scalar 7, Seq [], Seq []]) (Seq [0, 0, 0]) (Seq [1, 1, 1])
       (Seq [1, 2 ^ 32 - 1, 2 ^ 32 - 1])
     = Inr ([7], [[]]) \<and>
   prod_list (map (\<lambda>c. sint c + 1) (ensure_iterator (Seq [1, 2 ^ 32 - 1, 2 ^ 32 - 1::int64]))) = 2 ^ 65"
  by (simp add: ScanND_call_paths_def Let_def upt_conv_Cons overflowing_dimension_path)

text \<open>
  Claim C3, as amended. On every dimension specification whose grid size is below \<open>2^63\<close>
  (starts, stops and sample counts of equal length, no sample count negative, a positioner
  group for every dimension) the generator returns exactly the lexicographic grid: the
  positioners of the groups in order, each with the trajectory of its dimension, which is
  the linearly spaced sequence of that dimension inner-repeated by the product of the
  effective sample counts of the faster (higher-index) dimensions and outer-tiled by the
  product of those of the slower (lower-index) dimensions. Hence the point at index \<open>i\<close>
  of the trajectory of dimension \<open>d\<close> is \<open>start + k * (stop - start) / count\<close> where \<open>k\<close> is
  the digit \<open>(i div faster) mod (count + 1)\<close> of the row-major index: dimension 0 varies
  slowest, the last one fastest, and every sweep runs in the same direction. For
  D0 = (0, 1, 1) and D1 = (0, 10, 2) the trajectories are [0,0,0,1,1,1] and
  [0,5,10,0,5,10].
\<close>

theorem lexicographic_order:
  "(length (ensure_iterator start) = length (ensure_iterator npts) \<and>
    length (ensure_iterator stop) = length (ensure_iterator npts) \<and>
    length (ensure_iterator npts) \<le> length (ensure_iterator positioners) \<and>
    (\<forall>c\<in>set (ensure_iterator npts). 0 \<le> sint c) \<and>
    prod_list (effective_counts (ensure_iterator npts)) < 2 ^ 63 \<longrightarrow>
      ScanND_call_paths positioners start stop npts =
        Inr (grid_generator (ensure_iterator positioners) (ensure_iterator start)
               (ensure_iterator stop) (ensure_iterator npts)) \<and>
      (\<forall>d < length (ensure_iterator npts).
         \<forall>i < nat (prod_list (effective_counts (ensure_iterator npts))).
            grid_trajectory (ensure_iterator start ! d) (ensure_iterator stop ! d)
                (effective_counts (ensure_iterator npts)) d ! i
              = ensure_iterator start ! d +
                of_nat ((i div faster_factor (effective_counts (ensure_iterator npts)) d)
                          mod nat (sint (ensure_iterator npts ! d) + 1)) *
                (ensure_iterator stop ! d - ensure_iterator start ! d) /
                of_int (sint (ensure_iterator npts ! d)))) \<and>
   ScanND_call_paths (Seq [Scalar p0, Scalar p1]) (Seq [0, 0]) (Seq [1, 10]) (Seq [1, 2])
     = Inr ([p0, p1], [[0, 0, 0, 1, 1, 1], [0, 5, 10, 0, 5, 10]])"
proof (intro conjI impI allI)
  let ?c = "ensure_iterator npts"
  let ?N = "effective_counts ?c"
  assume a: "length (ensure_iterator start) = length ?c \<and>
    length (ensure_iterator stop) = length ?c \<and>
    length ?c \<le> length (ensure_iterator positioners) \<and>
    (\<forall>c\<in>set ?c. 0 \<le> sint c) \<and> prod_list ?N < 2 ^ 63"
  then have nn: "\<forall>c\<in>set ?c. 0 \<le> sint c" by simp
  from a ScanND_call_paths_eq(2)[of start npts stop positioners]
  show "ScanND_call_paths positioners start stop npts =
        Inr (grid_generator (ensure_iterator positioners) (ensure_iterator start)
               (ensure_iterator stop) ?c)"
    by blast
  fix d i
  assume d: "d < length ?c" and i: "i < nat (prod_list ?N)"
  have pos: "\<forall>n\<in>set ?N. 1 \<le> n" using nn by (auto simp: effective_counts_def)
  from d have dN: "d < length ?N" by (simp add: effective_counts_def)
  from d have Nd: "?N ! d = sint (?c ! d) + 1" by (simp add: effective_counts_def)
  from d nn have c0: "0 \<le> sint (?c ! d)" by simp
  from grid_trajectory_nth[OF dN pos i, of "ensure_iterator start ! d" "ensure_iterator stop ! d"]
  show "grid_trajectory (ensure_iterator start ! d) (ensure_iterator stop ! d) ?N d ! i
              = ensure_iterator start ! d +
                of_nat ((i div faster_factor ?N d) mod nat (sint (?c ! d) + 1)) *
                (ensure_iterator stop ! d - ensure_iterator start ! d) /
                of_int (sint (?c ! d))"
    using c0 by (simp add: Nd nat_add_distrib)
next
  show "ScanND_call_paths (Seq [Scalar p0, Scalar p1]) (Seq [0, 0]) (Seq [1, 10]) (Seq [1, 2])
     = Inr ([p0, p1], [[0, 0, 0, 1, 1, 1], [0, 5, 10, 0, 5, 10]])"
    by (simp add: ScanND_call_paths_def Let_def upt_conv_Cons slow_dimension_path
        fast_dimension_path)
qed

theorem lexicographic_order_witness:
  "length (ensure_iterator (Seq [0, 0, 0::rat])) = length (ensure_iterator (Seq [1, 2, 1::int64])) \<and>
   length (ensure_iterator (Seq [1, 10, 3::rat])) = length (ensure_iterator (Seq [1, 2, 1::int64])) \<and>
   length (ensure_iterator (Seq [1, 2, 1::int64]))
     \<le> length (ensure_iterator (Seq [Scalar 7, Seq [8, 9], Scalar (6::ref)])) \<and>
   list_all (\<lambda>c. 0 \<le> sint c) (ensure_iterator (Seq [1, 2, 1::int64])) \<and>
   prod_list (effective_counts (ensure_iterator (Seq [1, 2, 1::int64]))) < 2 ^ 63 \<and>
   ScanND_call_paths (Seq [Scalar 7, Seq [8, 9], Scalar 6]) (Seq [0, 0, 0]) (Seq [1, 10, 3])
       (Seq [1, 2, 1])
     = Inr ([7, 8, 9, 6],
            [[0, 0, 0, 0, 0, 0, 1, 1, 1, 1, 1, 1],
             [0, 0, 5, 5, 10, 10, 0, 0, 5, 5, 10, 10],
             [0, 0, 5, 5, 10, 10, 0, 0, 5, 5, 10, 10],
             [0, 3, 0, 3, 0, 3, 0, 3, 0, 3, 0, 3]])"
proof -
  have h: "length (ensure_iterator (Seq [0, 0, 0::rat])) = length (ensure_iterator (Seq [1, 2, 1::int64])) \<and>
    length (ensure_iterator (Seq [1, 10, 3::rat])) = length (ensure_iterator (Seq [1, 2, 1::int64])) \<and>
    length (ensure_iterator (Seq [1, 2, 1::int64]))
      \<le> length (ensure_iterator (Seq [Scalar 7, Seq [8, 9], Scalar (6::ref)])) \<and>
    (\<forall>c\<in>set (ensure_iterator (Seq [1, 2, 1::int64])). 0 \<le> sint c) \<and>
    prod_list (effective_counts (ensure_iterator (Seq [1, 2, 1::int64]))) < 2 ^ 63"
    by (simp add: effective_counts_def)
  have g: "grid_generator [Scalar 7, Seq [8, 9], Scalar 6] [0, 0, 0] [1, 10, 3] [1, 2, 1]
           = ([7, 8, 9, 6],
              [[0, 0, 0, 0, 0, 0, 1, 1, 1, 1, 1, 1],
               [0, 0, 5, 5, 10, 10, 0, 0, 5, 5, 10, 10],
               [0, 0, 5, 5, 10, 10, 0, 0, 5, 5, 10, 10],
               [0, 3, 0, 3, 0, 3, 0, 3, 0, 3, 0, 3]])"
    by code_simp
  from lexicographic_order[of "Seq [0, 0, 0]" "Seq [1, 2, 1]" "Seq [1, 10, 3]"
      "Seq [Scalar 7, Seq [8, 9], Scalar 6]"] h
  have "ScanND_call_paths (Seq [Scalar 7, Seq [8, 9], Scalar 6]) (Seq [0, 0, 0]) (Seq [1, 10, 3])
          (Seq [1, 2, 1])
        = Inr (grid_generator (ensure_iterator (Seq [Scalar 7, Seq [8, 9], Scalar 6]))
                 (ensure_iterator (Seq [0, 0, 0])) (ensure_iterator (Seq [1, 10, 3]))
                 (ensure_iterator (Seq [1, 2, 1])))"
    by blast
  with g h show ?thesis by (simp add: list_all_iff)
qed

text \<open>
  Claim C3 as stated fails where the products leave the 64-bit range. With sample counts
  2, \<open>2^32 - 1\<close> and \<open>2^32 - 1\<close> and two positioners on the first dimension only, the
  product of the effective sample counts of the faster dimensions is \<open>2^64\<close>, so the
  inner-repeated sequence of the first dimension has \<open>3 * 2^64\<close> points; the repeat factor
  of the code wraps to 0 and both trajectories are empty.
\<close>

theorem overflowing_grid_is_not_repeated:
  "ScanND_call_paths (Seq [Seq [4, 5], Seq [], Seq []]) (Seq [0, 0, 0]) (Seq [10, 1, 1])
       (Seq [2, 2 ^ 32 - 1, 2 ^ 32 - 1])
     = Inr ([4, 5], [[], []]) \<and>
   faster_factor (effective_counts [2, 2 ^ 32 - 1, 2 ^ 32 - 1]) 0 = 2 ^ 64 \<and>
   slower_factor (effective_counts [2, 2 ^ 32 - 1, 2 ^ 32 - 1]) 0 = 1 \<and>
   linear_points 0 10 3 = [0, 5, 10] \<and>
   length (grid_trajectory 0 10 (effective_counts [2, 2 ^ 32 - 1, 2 ^ 32 - 1]) 0) = 3 * 2 ^ 64"
proof -
  have path: "calculatePath 0 10 [3, 4294967296, 4294967296] 0 = Inr []"
    by (simp add: calculatePath_def calcLinearPath_def np_linspace_def np_repeat_def
        np_tile_def Let_def)
  have run: "ScanND_call_paths (Seq [Seq [4, 5], Seq [], Seq []]) (Seq [0, 0, 0]) (Seq [10, 1, 1])
       (Seq [2, 2 ^ 32 - 1, 2 ^ 32 - 1]) = Inr ([4, 5], [[], []])"
    by (simp add: ScanND_call_paths_def Let_def upt_conv_Cons path)
  have N: "effective_counts [2, 2 ^ 32 - 1, 2 ^ 32 - 1] = [3, 4294967296, 4294967296]"
    by (simp add: effective_counts_def)
  have f: "faster_factor [3, 4294967296, 4294967296] 0 = 2 ^ 64"
    by (simp add: faster_factor_def)
  have s: "slower_factor [3, 4294967296, 4294967296] 0 = 1"
    by (simp add: slower_factor_def)
  have l: "linear_points 0 10 3 = [0, 5, 10]"
    by (simp add: linear_points_def upt_conv_Cons)
  have "length (grid_trajectory 0 10 [3, 4294967296, 4294967296] 0) = 3 * 2 ^ 64"
    unfolding grid_trajectory_def length_outer_tile length_inner_repeat length_linear_points f s
    by simp
  with run N f s l show ?thesis by simp
qed

text \<open>
  Claim C9. A single dimension with start 0, stop 10 and sample count 5 yields exactly the
  six points 0, 2, 4, 6, 8, 10, both end points included.
\<close>

theorem linear_path_six_points:
  "calcLinearPath 0 10 (5 + 1) = Inr [0, 2, 4, 6, 8, 10] \<and>
   ScanND_call_paths (Scalar (Scalar p)) (Scalar 0) (Scalar 10) (Scalar 5)
     = Inr ([p], [[0, 2, 4, 6, 8, 10]])"
  by (simp add: ScanND_call_paths_def calculatePath_def calcLinearPath_def np_linspace_def
      np_repeat_def np_tile_def Let_def upt_conv_Cons)

section \<open>Facts about Scan.run\<close>

lemma call_method_Some:
  "call_method c m s w = Some (t, r, s', w') \<longleftrightarrow>
     m s w = Some (r, s', w') \<and> t = [(c, case r of Inl e \<Rightarrow> Raised e | Inr _ \<Rightarrow> Returned)]"
  by (auto simp: call_method_def split: option.splits)

lemma call_method_None: "call_method c m s w = None \<longleftrightarrow> m s w = None"
  by (auto simp: call_method_def split: option.splits)

lemma set_trajectories_shape:
  "set_trajectories ps w = (t, r, w') \<Longrightarrow>
     (\<forall>ev\<in>set t. is_SetTrajectory (fst ev)) \<and>
     (\<forall>c e. (c, Raised e) \<in> set t \<longrightarrow> r = Inl e) \<and>
     (\<forall>e. r = Inl e \<longrightarrow> t \<noteq> [] \<and> snd (last t) = Raised e)"
proof (induction ps arbitrary: w t r w')
  case Nil
  then show ?case by auto
next
  case (Cons a ps)
  obtain pos path where a: "a = (pos, path)" by (cases a) auto
  show ?case
  proof (cases "dev_set_trajectory pos path w")
    case (Pair r0 w0)
    show ?thesis
    proof (cases r0)
      case (Inl e)
      with Cons.prems a Pair show ?thesis by auto
    next
      case (Inr u)
      obtain t1 r1 w1 where rest: "set_trajectories ps w0 = (t1, r1, w1)"
        by (cases "set_trajectories ps w0") auto
      from Cons.IH[OF rest] Cons.prems a Pair Inr rest show ?thesis by auto
    qed
  qed
qed

lemma run_body_cases:
  assumes "run_body h eng s w = Some (t, r, s', w')"
  shows "(\<exists>e. t = [(SetupDetectors, Raised e)] \<and> r = Inl e \<and>
              setupDetectors h s w = Some (Inl e, s', w')) \<or>
         (\<exists>e s1 w1. t = [(SetupDetectors, Returned), (SetupTriggers, Raised e)] \<and> r = Inl e \<and>
              setupDetectors h s w = Some (Inr (), s1, w1) \<and>
              setupTriggers h s1 w1 = Some (Inl e, s', w')) \<or>
         (\<exists>s1 w1 s2 w2 t3 r3 w3.
              setupDetectors h s w = Some (Inr (), s1, w1) \<and>
              setupTriggers h s1 w1 = Some (Inr (), s2, w2) \<and>
              set_trajectories (zip (Scan_positioners s2) (Scan_paths s2)) w2 = (t3, r3, w3) \<and>
              ((\<exists>e. r3 = Inl e \<and> r = Inl e \<and> s' = s2 \<and> w' = w3 \<and>
                    t = [(SetupDetectors, Returned), (SetupTriggers, Returned)] @ t3) \<or>
               (\<exists>e. r3 = Inr () \<and> r = Inl e \<and> s' = s2 \<and>
                    eng (priv_run_id s2 + 1) (build_scan_args s2) w3 = Some (Inl e, w') \<and>
                    t = [(SetupDetectors, Returned), (SetupTriggers, Returned)] @ t3 @
                        [(StartRun (priv_run_id s2 + 1) (build_scan_args s2), Raised e)]) \<or>
               (\<exists>d. r3 = Inr () \<and> r = Inr () \<and> s' = set_data (Some d) s2 \<and>
                    eng (priv_run_id s2 + 1) (build_scan_args s2) w3 = Some (Inr d, w') \<and>
                    t = [(SetupDetectors, Returned), (SetupTriggers, Returned)] @ t3 @
                        [(StartRun (priv_run_id s2 + 1) (build_scan_args s2), ReturnedData d)])))"
  using assms
  by (auto simp: run_body_def call_method_def Let_def
      split: option.splits sum.splits prod.splits)

lemma Scan_run_cases:
  assumes "Scan_run h eng s w = Some (tr, res, s', w')"
  shows "(\<exists>e. tr = [(CheckPaths, Raised e)] \<and> res = Inl e \<and>
              checkPaths h s w = Some (Inl e, s', w')) \<or>
         (\<exists>e s0 w0. tr = [(CheckPaths, Returned), (PreScan, Raised e)] \<and> res = Inl e \<and>
              checkPaths h s w = Some (Inr (), s0, w0) \<and>
              preScan h s0 w0 = Some (Inl e, s', w')) \<or>
         (\<exists>s0 w0 s1 w1 t2 r2 s2 w2 rp.
              checkPaths h s w = Some (Inr (), s0, w0) \<and>
              preScan h s0 w0 = Some (Inr (), s1, w1) \<and>
              run_body h eng s1 w1 = Some (t2, r2, s2, w2) \<and>
              postScan h s2 w2 = Some (rp, s', w') \<and>
              tr = [(CheckPaths, Returned), (PreScan, Returned)] @ t2 @
                   [(PostScan, case rp of Inl e \<Rightarrow> Raised e | Inr _ \<Rightarrow> Returned)] \<and>
              res = (case rp of Inl e \<Rightarrow> Inl e | Inr _ \<Rightarrow> r2))"
  using assms
  by (auto simp: Scan_run_def with_stmt_def Scan_enter_def Scan_exit_def call_method_def
      split: option.splits sum.splits prod.splits)

lemma run_body_calls:
  assumes "run_body h eng s w = Some (t, r, s', w')"
  shows "\<forall>ev\<in>set t. fst ev \<noteq> CheckPaths \<and> fst ev \<noteq> PreScan \<and> fst ev \<noteq> PostScan"
  using run_body_cases[OF assms] set_trajectories_shape
  by (elim disjE exE conjE) fastforce+

lemma run_body_raised:
  assumes "run_body h eng s w = Some (t, r, s', w')" and "(c, Raised e) \<in> set t"
  shows "r = Inl e"
  using run_body_cases[OF assms(1)] assms(2) set_trajectories_shape
  by (elim disjE exE conjE) fastforce+

lemmas run_unfold =
  Scan_run_def with_stmt_def Scan_enter_def Scan_exit_def run_body_def call_method_def
  Scan_hooks_def Scan_pass_def raising_def echo_engine_def failing_engine_def
  build_scan_args_def Scan_init_def Scan_positioners_def Scan_paths_def Scan_detectors_def
  Scan_triggers_def Scan_default_triggers_def set_data_def observed_def Let_def

lemma set_trajectories_calls:
  "set_trajectories ps w = (t, r, w') \<Longrightarrow>
     filter is_StartRun (map fst t) = [] \<and>
     filter is_SetTrajectory (map fst t) = map fst t \<and>
     (\<forall>rid args out. (StartRun rid args, out) \<notin> set t) \<and>
     (r = Inr () \<longrightarrow> map fst t = map (\<lambda>(p, path). SetTrajectory p path) ps)"
proof (induction ps arbitrary: w t r w')
  case Nil
  then show ?case by auto
next
  case (Cons a ps)
  obtain pos path where a: "a = (pos, path)" by (cases a) auto
  show ?case
  proof (cases "dev_set_trajectory pos path w")
    case (Pair r0 w0)
    show ?thesis
    proof (cases r0)
      case (Inl e)
      with Cons.prems a Pair show ?thesis by auto
    next
      case (Inr u)
      obtain t1 r1 w1 where rest: "set_trajectories ps w0 = (t1, r1, w1)"
        by (cases "set_trajectories ps w0") auto
      from Cons.IH[OF rest] Cons.prems a Pair Inr rest show ?thesis by auto
    qed
  qed
qed

lemma run_body_request:
  assumes "run_body h eng s w = Some (t, r, s', w')" and "(StartRun rid args, out) \<in> set t"
  shows "\<exists>s1 w1 s2 w2 t3 w3 re.
           setupDetectors h s w = Some (Inr (), s1, w1) \<and>
           setupTriggers h s1 w1 = Some (Inr (), s2, w2) \<and>
           set_trajectories (zip (Scan_positioners s2) (Scan_paths s2)) w2 = (t3, Inr (), w3) \<and>
           eng rid args w3 = Some (re, w') \<and>
           out = (case re of Inl e \<Rightarrow> Raised e | Inr d \<Rightarrow> ReturnedData d) \<and>
           args = build_scan_args s2 \<and> rid = priv_run_id s2 + 1 \<and>
           requests t = [StartRun rid args] \<and>
           assignments t = map (\<lambda>(p, path). SetTrajectory p path)
                             (zip (Scan_positioners s2) (Scan_paths s2))"
  using run_body_cases[OF assms(1)] assms(2)
proof (elim disjE exE conjE)
  fix e
  assume "t = [(SetupDetectors, Raised e)]" "(StartRun rid args, out) \<in> set t"
  then show ?thesis by simp
next
  fix e s1 w1
  assume "t = [(SetupDetectors, Returned), (SetupTriggers, Raised e)]"
    "(StartRun rid args, out) \<in> set t"
  then show ?thesis by simp
next
  fix s1 w1 s2 w2 t3 r3 w3 e
  assume st: "set_trajectories (zip (Scan_positioners s2) (Scan_paths s2)) w2 = (t3, r3, w3)"
    and "t = [(SetupDetectors, Returned), (SetupTriggers, Returned)] @ t3"
    and "(StartRun rid args, out) \<in> set t"
  with set_trajectories_calls[OF st] show ?thesis by auto
next
  fix s1 w1 s2 w2 t3 r3 w3 e
  assume sd: "setupDetectors h s w = Some (Inr (), s1, w1)"
    and stg: "setupTriggers h s1 w1 = Some (Inr (), s2, w2)"
    and st: "set_trajectories (zip (Scan_positioners s2) (Scan_paths s2)) w2 = (t3, r3, w3)"
    and r3: "r3 = Inr ()"
    and en: "eng (priv_run_id s2 + 1) (build_scan_args s2) w3 = Some (Inl e, w')"
    and t: "t = [(SetupDetectors, Returned), (SetupTriggers, Returned)] @ t3 @
                [(StartRun (priv_run_id s2 + 1) (build_scan_args s2), Raised e)]"
    and ev: "(StartRun rid args, out) \<in> set t"
  from set_trajectories_calls[OF st] r3 ev
  have "args = build_scan_args s2 \<and> rid = priv_run_id s2 + 1 \<and> out = Raised e \<and>
        requests t = [StartRun rid args] \<and>
        assignments t = map (\<lambda>(p, path). SetTrajectory p path)
                          (zip (Scan_positioners s2) (Scan_paths s2))"
    by (auto simp: t requests_def assignments_def)
  with sd stg st r3 en show ?thesis by (intro exI[of _ "Inl e"] exI conjI) simp_all
next
  fix s1 w1 s2 w2 t3 r3 w3 d
  assume sd: "setupDetectors h s w = Some (Inr (), s1, w1)"
    and stg: "setupTriggers h s1 w1 = Some (Inr (), s2, w2)"
    and st: "set_trajectories (zip (Scan_positioners s2) (Scan_paths s2)) w2 = (t3, r3, w3)"
    and r3: "r3 = Inr ()"
    and en: "eng (priv_run_id s2 + 1) (build_scan_args s2) w3 = Some (Inr d, w')"
    and t: "t = [(SetupDetectors, Returned), (SetupTriggers, Returned)] @ t3 @
                [(StartRun (priv_run_id s2 + 1) (build_scan_args s2), ReturnedData d)]"
    and ev: "(StartRun rid args, out) \<in> set t"
  from set_trajectories_calls[OF st] r3 ev
  have "args = build_scan_args s2 \<and> rid = priv_run_id s2 + 1 \<and> out = ReturnedData d \<and>
        requests t = [StartRun rid args] \<and>
        assignments t = map (\<lambda>(p, path). SetTrajectory p path)
                          (zip (Scan_positioners s2) (Scan_paths s2))"
    by (auto simp: t requests_def assignments_def)
  with sd stg st r3 en show ?thesis by (intro exI[of _ "Inr d"] exI conjI) simp_all
qed

text \<open>
  \<^verbatim>\<open>run\<close> returns whenever the hooks and the engine do; only a call that hangs
  keeps it from returning.
\<close>

lemma run_body_returns:
  assumes "returns (setupDetectors h)" and "returns (setupTriggers h)" and "engine_returns eng"
  shows "run_body h eng s w \<noteq> None"
proof -
  obtain r1 s1 w1 where sd: "setupDetectors h s w = Some (r1, s1, w1)"
    using assms(1) unfolding returns_def by (metis option.exhaust prod_cases3)
  obtain r2 s2 w2 where st: "setupTriggers h s1 w1 = Some (r2, s2, w2)"
    using assms(2) unfolding returns_def by (metis option.exhaust prod_cases3)
  obtain t3 r3 w3 where tj:
    "set_trajectories (zip (Scan_positioners s2) (Scan_paths s2)) w2 = (t3, r3, w3)"
    by (metis prod_cases3)
  obtain re w4 where en: "eng (priv_run_id s2 + 1) (build_scan_args s2) w3 = Some (re, w4)"
    using assms(3) unfolding engine_returns_def by (metis option.exhaust surj_pair)
  show ?thesis
    using sd st tj en
    by (simp add: run_body_def call_method_def Let_def split: sum.splits)
qed

lemma Scan_run_returns:
  assumes "hooks_return h" and "engine_returns eng"
  shows "\<exists>tr res s' w'. Scan_run h eng s w = Some (tr, res, s', w')"
proof -
  from assms(1) have r: "returns (checkPaths h)" "returns (preScan h)" "returns (postScan h)"
    "returns (setupDetectors h)" "returns (setupTriggers h)"
    by (simp_all add: hooks_return_def)
  note body = run_body_returns[OF r(4,5) assms(2)]
  obtain r0 s0 w0 where cp: "checkPaths h s w = Some (r0, s0, w0)"
    using r(1) unfolding returns_def by (metis option.exhaust prod_cases3)
  obtain r1 s1 w1 where ps: "preScan h s0 w0 = Some (r1, s1, w1)"
    using r(2) unfolding returns_def by (metis option.exhaust prod_cases3)
  obtain t2 r2 s2 w2 where bd: "run_body h eng s1 w1 = Some (t2, r2, s2, w2)"
    using body by (metis option.exhaust prod_cases4)
  obtain r3 s3 w3 where po: "postScan h s2 w2 = Some (r3, s3, w3)"
    using r(3) unfolding returns_def by (metis option.exhaust prod_cases3)
  have "Scan_run h eng s w \<noteq> None"
    using cp ps bd po
    by (simp add: Scan_run_def with_stmt_def Scan_enter_def Scan_exit_def call_method_def
        split: sum.splits)
  then show ?thesis by (metis option.exhaust prod_cases4)
qed

text \<open>The events of the trace are the calls that were made.\<close>

lemma Scan_run_preScan_event:
  assumes "Scan_run h eng s w = Some (tr, res, s', w')"
  shows "(PreScan, Returned) \<in> set tr \<longleftrightarrow>
           (\<exists>s0 w0 s1 w1. checkPaths h s w = Some (Inr (), s0, w0) \<and>
                            preScan h s0 w0 = Some (Inr (), s1, w1))"
  using Scan_run_cases[OF assms]
proof (elim disjE exE conjE)
  fix e
  assume "tr = [(CheckPaths, Raised e)]" "checkPaths h s w = Some (Inl e, s', w')"
  then show ?thesis by simp
next
  fix e s0 w0
  assume "tr = [(CheckPaths, Returned), (PreScan, Raised e)]"
    "checkPaths h s w = Some (Inr (), s0, w0)" "preScan h s0 w0 = Some (Inl e, s', w')"
  then show ?thesis by simp
next
  fix s0 w0 s1 w1 t2 r2 s2 w2 rp
  assume "checkPaths h s w = Some (Inr (), s0, w0)" "preScan h s0 w0 = Some (Inr (), s1, w1)"
    "tr = [(CheckPaths, Returned), (PreScan, Returned)] @ t2 @
              [(PostScan, case rp of Inl e \<Rightarrow> Raised e | Inr _ \<Rightarrow> Returned)]"
  then show ?thesis by simp
qed

lemma run_body_dispatch:
  assumes "run_body h eng s w = Some (t, r, s', w')" and "requests t = []"
  shows "\<exists>c e. c \<noteq> PostScan \<and> (c, Raised e) \<in> set t"
  using run_body_cases[OF assms(1)] assms(2)
proof (elim disjE exE conjE)
  fix e
  assume "t = [(SetupDetectors, Raised e)]"
  then have "SetupDetectors \<noteq> PostScan \<and> (SetupDetectors, Raised e) \<in> set t" by simp
  then show ?thesis by blast
next
  fix e s1 w1
  assume "t = [(SetupDetectors, Returned), (SetupTriggers, Raised e)]"
  then have "SetupTriggers \<noteq> PostScan \<and> (SetupTriggers, Raised e) \<in> set t" by simp
  then show ?thesis by blast
next
  fix s1 w1 s2 w2 t3 r3 w3 e
  assume st: "set_trajectories (zip (Scan_positioners s2) (Scan_paths s2)) w2 = (t3, r3, w3)"
    and r3: "r3 = Inl e"
    and t: "t = [(SetupDetectors, Returned), (SetupTriggers, Returned)] @ t3"
  from set_trajectories_shape[OF st] r3
  have ne: "t3 \<noteq> []" and lst: "snd (last t3) = Raised e"
    and all: "\<forall>ev\<in>set t3. is_SetTrajectory (fst ev)" by simp_all
  from ne have mem: "last t3 \<in> set t3" by simp
  with all have "is_SetTrajectory (fst (last t3))" by blast
  then have "fst (last t3) \<noteq> PostScan" by auto
  moreover from mem lst have "(fst (last t3), Raised e) \<in> set t"
    by (simp add: t flip: lst)
  ultimately show ?thesis by blast
next
  fix s1 w1 s2 w2 t3 r3 w3 e
  assume "t = [(SetupDetectors, Returned), (SetupTriggers, Returned)] @ t3 @
                [(StartRun (priv_run_id s2 + 1) (build_scan_args s2), Raised e)]"
    and "requests t = []"
  then show ?thesis by (simp add: requests_def)
next
  fix s1 w1 s2 w2 t3 r3 w3 d
  assume "t = [(SetupDetectors, Returned), (SetupTriggers, Returned)] @ t3 @
                [(StartRun (priv_run_id s2 + 1) (build_scan_args s2), ReturnedData d)]"
    and "requests t = []"
  then show ?thesis by (simp add: requests_def)
qed

lemma Scan_run_dispatch:
  assumes "Scan_run h eng s w = Some (tr, res, s', w')" and "requests tr = []"
  shows "\<exists>c e. c \<noteq> PostScan \<and> (c, Raised e) \<in> set tr"
  using Scan_run_cases[OF assms(1)] assms(2)
proof (elim disjE exE conjE)
  fix e
  assume "tr = [(CheckPaths, Raised e)]"
  then have "CheckPaths \<noteq> PostScan \<and> (CheckPaths, Raised e) \<in> set tr" by simp
  then show ?thesis by blast
next
  fix e s0 w0
  assume "tr = [(CheckPaths, Returned), (PreScan, Raised e)]"
  then have "PreScan \<noteq> PostScan \<and> (PreScan, Raised e) \<in> set tr" by simp
  then show ?thesis by blast
next
  fix s0 w0 s1 w1 t2 r2 s2 w2 rp
  assume body: "run_body h eng s1 w1 = Some (t2, r2, s2, w2)"
    and tr: "tr = [(CheckPaths, Returned), (PreScan, Returned)] @ t2 @
              [(PostScan, case rp of Inl e \<Rightarrow> Raised e | Inr _ \<Rightarrow> Returned)]"
    and none: "requests tr = []"
  from none have "requests t2 = []" by (simp add: tr requests_def)
  from run_body_dispatch[OF body this] obtain c e where
    "c \<noteq> PostScan" "(c, Raised e) \<in> set t2" by blast
  then have "c \<noteq> PostScan \<and> (c, Raised e) \<in> set tr" by (simp add: tr)
  then show ?thesis by blast
qed

lemma source_hooks_return: "hooks_return Scan_hooks" "hooks_return AScan_hooks"
  by (simp_all add: hooks_return_def returns_def Scan_hooks_def AScan_hooks_def Scan_pass_def
      AScan_preScan_def Let_def split: prod.splits)

lemma doubles_return:
  "returns (raising msg)" "returns (choose_detectors ds)"
  "engine_returns echo_engine" "engine_returns (failing_engine msg)"
  by (simp_all add: returns_def engine_returns_def raising_def choose_detectors_def
      echo_engine_def failing_engine_def)

lemma Scan_hooks_keep_scan: "hooks_keep_scan Scan_hooks"
  by (simp add: hooks_keep_scan_def keeps_scan_def Scan_hooks_def Scan_pass_def)

lemma run_body_data:
  assumes "run_body h eng s w = Some (t, r, s', w')"
    and "keeps_data (setupDetectors h)" and "keeps_data (setupTriggers h)"
  shows "(\<forall>rid args e. (StartRun rid args, Raised e) \<in> set t \<longrightarrow>
             priv_last_data s' = priv_last_data s) \<and>
         (\<forall>rid args d. (StartRun rid args, ReturnedData d) \<in> set t \<longrightarrow>
             priv_last_data s' = Some d) \<and>
         (r = Inr () \<longrightarrow> (\<exists>rid args d. (StartRun rid args, ReturnedData d) \<in> set t))"
  using run_body_cases[OF assms(1)]
proof (elim disjE exE conjE)
  fix e
  assume "t = [(SetupDetectors, Raised e)]" "r = Inl e"
  then show ?thesis by simp
next
  fix e s1 w1
  assume "t = [(SetupDetectors, Returned), (SetupTriggers, Raised e)]" "r = Inl e"
  then show ?thesis by simp
next
  fix s1 w1 s2 w2 t3 r3 w3 e
  assume st: "set_trajectories (zip (Scan_positioners s2) (Scan_paths s2)) w2 = (t3, r3, w3)"
    and "t = [(SetupDetectors, Returned), (SetupTriggers, Returned)] @ t3" "r = Inl e"
  with set_trajectories_calls[OF st] show ?thesis by auto
next
  fix s1 w1 s2 w2 t3 r3 w3 e
  assume sd: "setupDetectors h s w = Some (Inr (), s1, w1)"
    and stg: "setupTriggers h s1 w1 = Some (Inr (), s2, w2)"
    and st: "set_trajectories (zip (Scan_positioners s2) (Scan_paths s2)) w2 = (t3, r3, w3)"
    and r: "r = Inl e" and s': "s' = s2"
    and t: "t = [(SetupDetectors, Returned), (SetupTriggers, Returned)] @ t3 @
                [(StartRun (priv_run_id s2 + 1) (build_scan_args s2), Raised e)]"
  from sd stg assms(2,3) have "priv_last_data s2 = priv_last_data s"
    unfolding keeps_data_def by metis
  with set_trajectories_calls[OF st] r s' show ?thesis by (auto simp: t)
next
  fix s1 w1 s2 w2 t3 r3 w3 d
  assume st: "set_trajectories (zip (Scan_positioners s2) (Scan_paths s2)) w2 = (t3, r3, w3)"
    and r: "r = Inr ()" and s': "s' = set_data (Some d) s2"
    and t: "t = [(SetupDetectors, Returned), (SetupTriggers, Returned)] @ t3 @
                [(StartRun (priv_run_id s2 + 1) (build_scan_args s2), ReturnedData d)]"
  from set_trajectories_calls[OF st] r s' show ?thesis by (auto simp: t set_data_def)
qed

lemma AScan_preScan_scan: "AScan_preScan s w = Some (r, s', w') \<Longrightarrow> s' = s"
  by (auto simp: AScan_preScan_def Let_def split: prod.splits)

lemma AScan_preScan_keeps_scan: "keeps_scan AScan_preScan"
  unfolding keeps_scan_def using AScan_preScan_scan by blast

lemma Scan_pass_keeps_scan: "keeps_scan Scan_pass"
  by (simp add: keeps_scan_def Scan_pass_def)

lemma keeps_scan_data: "keeps_scan m \<Longrightarrow> keeps_data m"
  unfolding keeps_scan_def keeps_data_def by metis

lemma DScan_preScan_keeps_data: "keeps_data DScan_preScan"
proof -
  have "priv_last_data s' = priv_last_data s" if "DScan_preScan s w = Some (r, s', w')" for s w r s' w'
  proof (cases "read_positions (Scan_positioners s) w")
    case (Inl e)
    with that show ?thesis by (simp add: DScan_preScan_def)
  next
    case (Inr starts)
    with that show ?thesis
      by (auto simp: DScan_preScan_def Let_def set_paths_def dest!: AScan_preScan_scan)
  qed
  then show ?thesis unfolding keeps_data_def by blast
qed

lemma DScan_postScan_keeps_scan: "keeps_scan (DScan_postScan tick)"
  by (auto simp: keeps_scan_def DScan_postScan_def Let_def
      split: option.splits prod.splits sum.splits)

lemma source_hooks_keep_data:
  "hooks_keep_data Scan_hooks" "hooks_keep_data AScan_hooks" "hooks_keep_data (DScan_hooks tick)"
  using Scan_pass_keeps_scan AScan_preScan_keeps_scan DScan_preScan_keeps_data
    DScan_postScan_keeps_scan[of tick]
  by (auto simp: hooks_keep_data_def Scan_hooks_def AScan_hooks_def DScan_hooks_def
      intro: keeps_scan_data)

text \<open>
  \<^verbatim>\<open>run\<close> never assigns \<^verbatim>\<open>_run_id\<close>: where the hooks leave the scan object alone,
  the accessor \<^verbatim>\<open>run_id\<close> returns after a run what it returned before.
\<close>

lemma run_body_run_id:
  assumes "run_body h eng s w = Some (t, r, s', w')"
    and "keeps_scan (setupDetectors h)" and "keeps_scan (setupTriggers h)"
  shows "priv_run_id s' = priv_run_id s"
  using run_body_cases[OF assms(1)] assms(2,3)
  unfolding keeps_scan_def set_data_def
  by (elim disjE exE conjE) (simp; metis)+

lemma Scan_run_run_id:
  assumes "Scan_run h eng s w = Some (tr, res, s', w')" and "hooks_keep_scan h"
  shows "Scan_run_id s' = Scan_run_id s"
  using Scan_run_cases[OF assms(1)]
proof (elim disjE exE conjE)
  fix e
  assume "checkPaths h s w = Some (Inl e, s', w')"
  with assms(2) show ?thesis
    unfolding hooks_keep_scan_def keeps_scan_def by metis
next
  fix e s0 w0
  assume "checkPaths h s w = Some (Inr (), s0, w0)" "preScan h s0 w0 = Some (Inl e, s', w')"
  with assms(2) show ?thesis
    unfolding hooks_keep_scan_def keeps_scan_def by metis
next
  fix s0 w0 s1 w1 t2 r2 s2 w2 rp
  assume cp: "checkPaths h s w = Some (Inr (), s0, w0)"
    and ps: "preScan h s0 w0 = Some (Inr (), s1, w1)"
    and body: "run_body h eng s1 w1 = Some (t2, r2, s2, w2)"
    and post: "postScan h s2 w2 = Some (rp, s', w')"
  from assms(2) have k: "keeps_scan (checkPaths h)" "keeps_scan (preScan h)"
    "keeps_scan (postScan h)" "keeps_scan (setupDetectors h)" "keeps_scan (setupTriggers h)"
    by (simp_all add: hooks_keep_scan_def)
  from cp ps k(1,2) have "s1 = s" unfolding keeps_scan_def by metis
  moreover from post k(3) have "s' = s2" unfolding keeps_scan_def by metis
  moreover note run_body_run_id[OF body k(4,5)]
  ultimately show ?thesis by (simp add: Scan_run_id_def)
qed

section \<open>Claims about the scan lifecycle\<close>

text \<open>
  Claim C1, as amended. \<^verbatim>\<open>run\<close> returns whenever its hooks and the engine return,
  normally or by raising. In every run that returns, \<^verbatim>\<open>preScan\<close> is recorded as
  completed exactly when \<^verbatim>\<open>checkPaths\<close> and then \<^verbatim>\<open>preScan\<close> returned normally,
  and then \<^verbatim>\<open>postScan\<close> was invoked exactly once, as the last call of the run; an
  error raised by \<^verbatim>\<open>setupDetectors\<close>, \<^verbatim>\<open>setupTriggers\<close>, a trajectory assignment
  or the execution engine is the error that \<^verbatim>\<open>run\<close> raises, provided \<^verbatim>\<open>postScan\<close>
  itself returned normally; an error raised by \<^verbatim>\<open>postScan\<close> is the one that
  \<^verbatim>\<open>run\<close> raises.
\<close>

theorem postScan_once:
  "(hooks_return h \<and> engine_returns eng \<longrightarrow>
      (\<exists>tr res s' w'. Scan_run h eng s w = Some (tr, res, s', w'))) \<and>
   (\<forall>tr res s' w'. Scan_run h eng s w = Some (tr, res, s', w') \<longrightarrow>
      ((PreScan, Returned) \<in> set tr \<longleftrightarrow>
         (\<exists>s0 w0 s1 w1. checkPaths h s w = Some (Inr (), s0, w0) \<and>
                          preScan h s0 w0 = Some (Inr (), s1, w1))) \<and>
      ((PreScan, Returned) \<in> set tr \<longrightarrow>
         calls_of PostScan tr = 1 \<and> fst (last tr) = PostScan \<and>
         (\<forall>c e. c \<noteq> PostScan \<and> (c, Raised e) \<in> set tr \<and> (PostScan, Returned) \<in> set tr
                 \<longrightarrow> res = Inl e) \<and>
         (\<forall>e. (PostScan, Raised e) \<in> set tr \<longrightarrow> res = Inl e)))"
proof (intro conjI impI allI)
  assume "hooks_return h \<and> engine_returns eng"
  then show "\<exists>tr res s' w'. Scan_run h eng s w = Some (tr, res, s', w')"
    using Scan_run_returns by blast
next
  fix tr res s' w'
  assume run: "Scan_run h eng s w = Some (tr, res, s', w')"
  show "(PreScan, Returned) \<in> set tr \<longleftrightarrow>
         (\<exists>s0 w0 s1 w1. checkPaths h s w = Some (Inr (), s0, w0) \<and>
                          preScan h s0 w0 = Some (Inr (), s1, w1))"
    using run by (rule Scan_run_preScan_event)
  assume pre: "(PreScan, Returned) \<in> set tr"
  have "calls_of PostScan tr = 1 \<and> fst (last tr) = PostScan \<and>
         (\<forall>c e. c \<noteq> PostScan \<and> (c, Raised e) \<in> set tr \<and> (PostScan, Returned) \<in> set tr
                 \<longrightarrow> res = Inl e) \<and>
         (\<forall>e. (PostScan, Raised e) \<in> set tr \<longrightarrow> res = Inl e)"
    using Scan_run_cases[OF run] pre
  proof (elim disjE exE conjE)
    fix e
    assume "tr = [(CheckPaths, Raised e)]" "(PreScan, Returned) \<in> set tr"
    then show ?thesis by simp
  next
    fix e s0 w0
    assume "tr = [(CheckPaths, Returned), (PreScan, Raised e)]" "(PreScan, Returned) \<in> set tr"
    then show ?thesis by simp
  next
    fix s0 w0 s1 w1 t2 r2 s2 w2 rp
    assume body: "run_body h eng s1 w1 = Some (t2, r2, s2, w2)"
      and tr: "tr = [(CheckPaths, Returned), (PreScan, Returned)] @ t2 @
                [(PostScan, case rp of Inl e \<Rightarrow> Raised e | Inr _ \<Rightarrow> Returned)]"
      and res: "res = (case rp of Inl e \<Rightarrow> Inl e | Inr _ \<Rightarrow> r2)"
    note calls = run_body_calls[OF body]
    have once: "calls_of PostScan tr = 1"
      using calls by (auto simp: tr calls_of_def filter_empty_conv)
    have lst: "fst (last tr) = PostScan" by (simp add: tr)
    have kept: "res = Inl e"
      if "c \<noteq> PostScan" "(c, Raised e) \<in> set tr" "(PostScan, Returned) \<in> set tr" for c e
    proof -
      from that(3) calls have rp: "\<exists>u. rp = Inr u"
        by (cases rp) (auto simp: tr)
      from that(1,2) have "(c, Raised e) \<in> set t2" by (auto simp: tr split: sum.splits)
      from run_body_raised[OF body this] rp show ?thesis by (auto simp: res)
    qed
    have repl: "res = Inl e" if "(PostScan, Raised e) \<in> set tr" for e
      using that calls by (cases rp) (auto simp: tr res)
    from once lst kept repl show ?thesis by blast
  qed
  then show "calls_of PostScan tr = 1" and "fst (last tr) = PostScan"
    and "\<And>c e. c \<noteq> PostScan \<and> (c, Raised e) \<in> set tr \<and> (PostScan, Returned) \<in> set tr
                 \<Longrightarrow> res = Inl e"
    and "\<And>e. (PostScan, Raised e) \<in> set tr \<Longrightarrow> res = Inl e"
    by blast+
qed

text \<open>
  The claim at work: \<^verbatim>\<open>setupDetectors\<close>, \<^verbatim>\<open>setupTriggers\<close>, a trajectory
  assignment and the engine are made to fail in turn; every run returns, with
  \<^verbatim>\<open>postScan\<close> called once and the original error raised.
\<close>

theorem postScan_once_witness:
  "hooks_return (Scan_hooks\<lparr>setupDetectors := raising ''detector''\<rparr>) \<and>
   hooks_return (Scan_hooks\<lparr>setupTriggers := raising ''trigger''\<rparr>) \<and>
   hooks_return Scan_hooks \<and> engine_returns echo_engine \<and>
   engine_returns (failing_engine ''engine'') \<and>
   observed (Scan_run (Scan_hooks\<lparr>setupDetectors := raising ''detector''\<rparr>) echo_engine
      Scan_init quiet_world)
     = Some ([(CheckPaths, Returned), (PreScan, Returned),
              (SetupDetectors, Raised (Failure ''detector'')), (PostScan, Returned)],
             Inl (Failure ''detector''), Scan_init) \<and>
   calls_of PostScan [(CheckPaths, Returned), (PreScan, Returned),
              (SetupDetectors, Raised (Failure ''detector'')), (PostScan, Returned)] = 1 \<and>
   observed (Scan_run (Scan_hooks\<lparr>setupTriggers := raising ''trigger''\<rparr>) echo_engine
      Scan_init quiet_world)
     = Some ([(CheckPaths, Returned), (PreScan, Returned), (SetupDetectors, Returned),
              (SetupTriggers, Raised (Failure ''trigger'')), (PostScan, Returned)],
             Inl (Failure ''trigger''), Scan_init) \<and>
   calls_of PostScan [(CheckPaths, Returned), (PreScan, Returned), (SetupDetectors, Returned),
              (SetupTriggers, Raised (Failure ''trigger'')), (PostScan, Returned)] = 1 \<and>
   observed (Scan_run Scan_hooks echo_engine (set_paths [[1, 2]] (set_positioners [3] Scan_init))
      dark_world)
     = Some ([(CheckPaths, Returned), (PreScan, Returned), (SetupDetectors, Returned),
              (SetupTriggers, Returned), (SetTrajectory 3 [1, 2], Raised offline),
              (PostScan, Returned)],
             Inl offline, set_paths [[1, 2]] (set_positioners [3] Scan_init)) \<and>
   calls_of PostScan [(CheckPaths, Returned), (PreScan, Returned), (SetupDetectors, Returned),
              (SetupTriggers, Returned), (SetTrajectory 3 [1, 2], Raised offline),
              (PostScan, Returned)] = 1 \<and>
   observed (Scan_run Scan_hooks (failing_engine ''engine'')
      (set_paths [[1, 2]] (set_positioners [3] Scan_init)) quiet_world)
     = Some ([(CheckPaths, Returned), (PreScan, Returned), (SetupDetectors, Returned),
              (SetupTriggers, Returned), (SetTrajectory 3 [1, 2], Returned),
              (StartRun 1 [(''detectors'', VRefs []), (''triggers'', VRefs []),
                           (''positioners'', VRefs [3]), (''settle_time'', VNone)],
               Raised (Failure ''engine'')),
              (PostScan, Returned)],
             Inl (Failure ''engine''), set_paths [[1, 2]] (set_positioners [3] Scan_init)) \<and>
   calls_of PostScan [(CheckPaths, Returned), (PreScan, Returned), (SetupDetectors, Returned),
              (SetupTriggers, Returned), (SetTrajectory 3 [1, 2], Returned),
              (StartRun 1 [(''detectors'', VRefs []), (''triggers'', VRefs []),
                           (''positioners'', VRefs [3]), (''settle_time'', VNone)],
               Raised (Failure ''engine'')),
              (PostScan, Returned)] = 1"
proof -
  let ?s3 = "set_paths [[1, 2]] (set_positioners [3] Scan_init)"
  let ?args = "[(''detectors'', VRefs []), (''triggers'', VRefs []),
                (''positioners'', VRefs [3]), (''settle_time'', VNone)]"
  let ?t1 = "[(CheckPaths, Returned), (PreScan, Returned),
              (SetupDetectors, Raised (Failure ''detector'')), (PostScan, Returned)]"
  let ?t2 = "[(CheckPaths, Returned), (PreScan, Returned), (SetupDetectors, Returned),
              (SetupTriggers, Raised (Failure ''trigger'')), (PostScan, Returned)]"
  let ?t3 = "[(CheckPaths, Returned), (PreScan, Returned), (SetupDetectors, Returned),
              (SetupTriggers, Returned), (SetTrajectory 3 [1, 2], Raised offline),
              (PostScan, Returned)]"
  let ?t4 = "[(CheckPaths, Returned), (PreScan, Returned), (SetupDetectors, Returned),
              (SetupTriggers, Returned), (SetTrajectory 3 [1, 2], Returned),
              (StartRun 1 ?args, Raised (Failure ''engine'')), (PostScan, Returned)]"
  have hr: "hooks_return (Scan_hooks\<lparr>setupDetectors := raising ''detector''\<rparr>)"
    "hooks_return (Scan_hooks\<lparr>setupTriggers := raising ''trigger''\<rparr>)"
    "hooks_return Scan_hooks"
    using source_hooks_return(1) doubles_return(1) by (simp_all add: hooks_return_def)
  have er: "engine_returns echo_engine" "engine_returns (failing_engine ''engine'')"
    by (rule doubles_return)+
  have r1: "Scan_run (Scan_hooks\<lparr>setupDetectors := raising ''detector''\<rparr>) echo_engine
      Scan_init quiet_world = Some (?t1, Inl (Failure ''detector''), Scan_init, quiet_world)"
    by (simp add: run_unfold)
  have r2: "Scan_run (Scan_hooks\<lparr>setupTriggers := raising ''trigger''\<rparr>) echo_engine
      Scan_init quiet_world = Some (?t2, Inl (Failure ''trigger''), Scan_init, quiet_world)"
    by (simp add: run_unfold)
  have r3: "Scan_run Scan_hooks echo_engine ?s3 dark_world
      = Some (?t3, Inl offline, ?s3, dark_world)"
    by (simp add: run_unfold set_paths_def set_positioners_def dev_set_trajectory_def
        dark_world_def quiet_world_def idle_positioner_def)
  have "\<exists>w'. Scan_run Scan_hooks (failing_engine ''engine'') ?s3 quiet_world
      = Some (?t4, Inl (Failure ''engine''), ?s3, w')"
    by (simp add: run_unfold set_paths_def set_positioners_def dev_set_trajectory_def
        quiet_world_def idle_positioner_def)
  then obtain w4 where r4: "Scan_run Scan_hooks (failing_engine ''engine'') ?s3 quiet_world
      = Some (?t4, Inl (Failure ''engine''), ?s3, w4)" by blast
  have c1: "calls_of PostScan ?t1 = 1"
    using postScan_once[of "Scan_hooks\<lparr>setupDetectors := raising ''detector''\<rparr>" echo_engine
        Scan_init quiet_world] hr(1) er(1) r1 by simp
  have c2: "calls_of PostScan ?t2 = 1"
    using postScan_once[of "Scan_hooks\<lparr>setupTriggers := raising ''trigger''\<rparr>" echo_engine
        Scan_init quiet_world] r2 by simp
  have c3: "calls_of PostScan ?t3 = 1"
    using postScan_once[of Scan_hooks echo_engine ?s3 dark_world] r3 by simp
  have c4: "calls_of PostScan ?t4 = 1"
    using postScan_once[of Scan_hooks "failing_engine ''engine''" ?s3 quiet_world] r4 by simp
  from hr er r1 r2 r3 r4 c1 c2 c3 c4 show ?thesis by (simp add: observed_def)
qed

text \<open>
  Claim C1 as stated fails: with \<^verbatim>\<open>setupDetectors\<close> raising and \<^verbatim>\<open>postScan\<close>
  raising too, \<^verbatim>\<open>preScan\<close> completed and \<^verbatim>\<open>postScan\<close> ran once, but the caller
  receives the error of \<^verbatim>\<open>postScan\<close>, not the original one.
\<close>

theorem teardown_error_replaces_original:
  "observed (Scan_run (Scan_hooks\<lparr>postScan := raising ''teardown'',
                                   setupDetectors := raising ''detector''\<rparr>)
      echo_engine Scan_init quiet_world)
     = Some ([(CheckPaths, Returned), (PreScan, Returned),
              (SetupDetectors, Raised (Failure ''detector'')),
              (PostScan, Raised (Failure ''teardown''))],
             Inl (Failure ''teardown''), Scan_init)"
  by (simp add: run_unfold)

text \<open>
  Claim C10. When \<^verbatim>\<open>preScan\<close> raises, \<^verbatim>\<open>postScan\<close> is not invoked and the error
  is raised by \<^verbatim>\<open>run\<close>; when the path validation raises, neither \<^verbatim>\<open>preScan\<close>
  nor \<^verbatim>\<open>postScan\<close> is invoked.
\<close>

theorem no_teardown_without_setup:
  assumes "Scan_run h eng s w = Some (tr, res, s', w')"
  shows "(\<forall>e. (PreScan, Raised e) \<in> set tr \<longrightarrow> calls_of PostScan tr = 0 \<and> res = Inl e) \<and>
         (\<forall>e. (CheckPaths, Raised e) \<in> set tr \<longrightarrow>
               calls_of PreScan tr = 0 \<and> calls_of PostScan tr = 0 \<and> res = Inl e)"
  using Scan_run_cases[OF assms]
proof (elim disjE exE conjE)
  fix e
  assume "tr = [(CheckPaths, Raised e)]" "res = Inl e"
  then show ?thesis by (auto simp: calls_of_def)
next
  fix e s0 w0
  assume "tr = [(CheckPaths, Returned), (PreScan, Raised e)]" "res = Inl e"
  then show ?thesis by (auto simp: calls_of_def)
next
  fix s0 w0 s1 w1 t2 r2 s2 w2 rp
  assume body: "run_body h eng s1 w1 = Some (t2, r2, s2, w2)"
    and tr: "tr = [(CheckPaths, Returned), (PreScan, Returned)] @ t2 @
              [(PostScan, case rp of Inl e \<Rightarrow> Raised e | Inr _ \<Rightarrow> Returned)]"
  from run_body_calls[OF body] have "\<forall>e. (PreScan, Raised e) \<notin> set tr \<and> (CheckPaths, Raised e) \<notin> set tr"
    by (auto simp: tr)
  then show ?thesis by blast
qed

theorem no_teardown_without_setup_witness:
  "observed (Scan_run (DScan_hooks no_tick) echo_engine (set_positioners [0] Scan_init) dark_world)
     = Some ([(CheckPaths, Returned), (PreScan, Raised offline)], Inl offline,
             set_positioners [0] Scan_init) \<and>
   calls_of PostScan [(CheckPaths, Returned), (PreScan, Raised offline)] = 0 \<and>
   observed (Scan_run (Scan_hooks\<lparr>checkPaths := raising ''paths''\<rparr>) echo_engine Scan_init
      quiet_world)
     = Some ([(CheckPaths, Raised (Failure ''paths''))], Inl (Failure ''paths''), Scan_init) \<and>
   calls_of PreScan [(CheckPaths, Raised (Failure ''paths''))] = 0 \<and>
   calls_of PostScan [(CheckPaths, Raised (Failure ''paths''))] = 0"
proof -
  let ?t1 = "[(CheckPaths, Returned), (PreScan, Raised offline)]"
  let ?t2 = "[(CheckPaths, Raised (Failure ''paths''))]"
  have r1: "Scan_run (DScan_hooks no_tick) echo_engine (set_positioners [0] Scan_init) dark_world
      = Some (?t1, Inl offline, set_positioners [0] Scan_init, dark_world)"
    by (simp add: run_unfold DScan_hooks_def AScan_hooks_def DScan_preScan_def dev_position_def
        dark_world_def idle_positioner_def set_positioners_def)
  have r2: "Scan_run (Scan_hooks\<lparr>checkPaths := raising ''paths''\<rparr>) echo_engine Scan_init
      quiet_world = Some (?t2, Inl (Failure ''paths''), Scan_init, quiet_world)"
    by (simp add: run_unfold)
  from no_teardown_without_setup[OF r1] have c1: "calls_of PostScan ?t1 = 0" by simp
  from no_teardown_without_setup[OF r2]
  have c2: "calls_of PreScan ?t2 = 0 \<and> calls_of PostScan ?t2 = 0" by simp
  from r1 r2 c1 c2 show ?thesis by (simp add: observed_def)
qed

text \<open>
  Claim C8. The effective trigger and detector lists are the per-scan list followed by
  the default list when a per-scan list has been set, and the default list alone
  otherwise.
\<close>

theorem layered_lists:
  "Scan_triggers (set_triggers (Some ov) s) = ov @ Scan_default_triggers s \<and>
   Scan_triggers (set_triggers None s) = Scan_default_triggers s \<and>
   Scan_detectors (set_detectors (Some ov) s) = ov @ Scan_default_detectors s \<and>
   Scan_detectors (set_detectors None s) = Scan_default_detectors s \<and>
   Scan_triggers (set_triggers (Some ov) (set_default_triggers dflt s)) = ov @ dflt \<and>
   Scan_detectors (set_detectors (Some ov) (set_default_detectors dflt s)) = ov @ dflt \<and>
   Scan_triggers Scan_init = [] \<and> Scan_detectors Scan_init = []"
  by (simp add: Scan_triggers_def Scan_detectors_def set_triggers_def set_detectors_def
      Scan_default_triggers_def Scan_default_detectors_def set_default_triggers_def
      set_default_detectors_def Scan_init_def)

text \<open>
  Claim C5 fails on the code: \<^verbatim>\<open>run\<close> passes \<^verbatim>\<open>self._run_id + 1\<close> and never stores
  it. On a fresh scan the first invocation passes run id 1; a second invocation, on the
  object the first one left, passes 1 again, and the accessor \<^verbatim>\<open>run_id\<close> still
  returns 0.
\<close>

theorem run_id_stays_one:
  "observed (Scan_run Scan_hooks echo_engine Scan_init quiet_world)
     = Some ([(CheckPaths, Returned), (PreScan, Returned), (SetupDetectors, Returned),
              (SetupTriggers, Returned),
              (StartRun 1 [(''detectors'', VRefs []), (''triggers'', VRefs []),
                           (''positioners'', VRefs []), (''settle_time'', VNone)],
               ReturnedData (Dataset 1)),
              (PostScan, Returned)],
             Inr (), set_data (Some (Dataset 1)) Scan_init) \<and>
   observed (Scan_run Scan_hooks echo_engine (set_data (Some (Dataset 1)) Scan_init) quiet_world)
     = Some ([(CheckPaths, Returned), (PreScan, Returned), (SetupDetectors, Returned),
              (SetupTriggers, Returned),
              (StartRun 1 [(''detectors'', VRefs []), (''triggers'', VRefs []),
                           (''positioners'', VRefs []), (''settle_time'', VNone)],
               ReturnedData (Dataset 1)),
              (PostScan, Returned)],
             Inr (), set_data (Some (Dataset 1)) Scan_init) \<and>
   Scan_run_id (set_data (Some (Dataset 1)) Scan_init) = 0"
  by (simp add: run_unfold Scan_run_id_def)

text \<open>
  Claim C6, as amended. \<^verbatim>\<open>run\<close> returns whenever its hooks and the engine return,
  and a run in which no call before the dispatch raised has dispatched a request. The
  request of a run is dispatched once, to the engine itself, on the scan object as
  \<^verbatim>\<open>checkPaths\<close>, \<^verbatim>\<open>preScan\<close>, \<^verbatim>\<open>setupDetectors\<close> and \<^verbatim>\<open>setupTriggers\<close> left
  it, one after the other: it holds exactly the detectors, the triggers, the positioners
  and the settle time of that object, with run id its stored run id plus one. The
  trajectories are not part of the request: before the dispatch each path of that object
  is handed to its positioner by \<^verbatim>\<open>set_trajectory\<close>, pairwise along
  \<^verbatim>\<open>zip(positioners, paths)\<close>, and the engine is called in the world these
  assignments left. When no hook changes the scan object, the object at dispatch is the
  one \<^verbatim>\<open>run\<close> was called on.
\<close>

theorem request_contents:
  "(hooks_return h \<and> engine_returns eng \<longrightarrow>
      (\<exists>tr res s' w'. Scan_run h eng s w = Some (tr, res, s', w') \<and>
         (requests tr = [] \<longrightarrow> (\<exists>c e. c \<noteq> PostScan \<and> (c, Raised e) \<in> set tr)))) \<and>
   (\<forall>tr res s' w' rid args out.
      Scan_run h eng s w = Some (tr, res, s', w') \<and> (StartRun rid args, out) \<in> set tr \<longrightarrow>
      (\<exists>s0 w0 s1 w1 s2 w2 s3 w3 t3 w4 re w5.
         checkPaths h s w = Some (Inr (), s0, w0) \<and>
         preScan h s0 w0 = Some (Inr (), s1, w1) \<and>
         setupDetectors h s1 w1 = Some (Inr (), s2, w2) \<and>
         setupTriggers h s2 w2 = Some (Inr (), s3, w3) \<and>
         set_trajectories (zip (Scan_positioners s3) (Scan_paths s3)) w3 = (t3, Inr (), w4) \<and>
         eng rid args w4 = Some (re, w5) \<and>
         out = (case re of Inl e \<Rightarrow> Raised e | Inr d \<Rightarrow> ReturnedData d) \<and>
         args = [(''detectors'', VRefs (Scan_detectors s3)),
                 (''triggers'', VRefs (Scan_triggers s3)),
                 (''positioners'', VRefs (Scan_positioners s3)),
                 (''settle_time'', case settle_time s3 of None \<Rightarrow> VNone | Some t \<Rightarrow> VNum t)] \<and>
         rid = Scan_run_id s3 + 1 \<and>
         map_of args ''trajectories'' = None \<and>
         requests tr = [StartRun rid args] \<and>
         assignments tr = map (\<lambda>(p, path). SetTrajectory p path)
                            (zip (Scan_positioners s3) (Scan_paths s3)) \<and>
         (hooks_keep_scan h \<longrightarrow> s3 = s)))"
proof (intro conjI impI allI)
  assume "hooks_return h \<and> engine_returns eng"
  then obtain tr res s' w' where run: "Scan_run h eng s w = Some (tr, res, s', w')"
    using Scan_run_returns by blast
  from Scan_run_dispatch[OF run]
  have "requests tr = [] \<longrightarrow> (\<exists>c e. c \<noteq> PostScan \<and> (c, Raised e) \<in> set tr)" by blast
  with run show "\<exists>tr res s' w'. Scan_run h eng s w = Some (tr, res, s', w') \<and>
         (requests tr = [] \<longrightarrow> (\<exists>c e. c \<noteq> PostScan \<and> (c, Raised e) \<in> set tr))"
    by blast
next
  fix tr res s' w' rid args out
  assume a: "Scan_run h eng s w = Some (tr, res, s', w') \<and> (StartRun rid args, out) \<in> set tr"
  then have run: "Scan_run h eng s w = Some (tr, res, s', w')"
    and ev: "(StartRun rid args, out) \<in> set tr" by simp_all
  show "\<exists>s0 w0 s1 w1 s2 w2 s3 w3 t3 w4 re w5.
         checkPaths h s w = Some (Inr (), s0, w0) \<and>
         preScan h s0 w0 = Some (Inr (), s1, w1) \<and>
         setupDetectors h s1 w1 = Some (Inr (), s2, w2) \<and>
         setupTriggers h s2 w2 = Some (Inr (), s3, w3) \<and>
         set_trajectories (zip (Scan_positioners s3) (Scan_paths s3)) w3 = (t3, Inr (), w4) \<and>
         eng rid args w4 = Some (re, w5) \<and>
         out = (case re of Inl e \<Rightarrow> Raised e | Inr d \<Rightarrow> ReturnedData d) \<and>
         args = [(''detectors'', VRefs (Scan_detectors s3)),
                 (''triggers'', VRefs (Scan_triggers s3)),
                 (''positioners'', VRefs (Scan_positioners s3)),
                 (''settle_time'', case settle_time s3 of None \<Rightarrow> VNone | Some t \<Rightarrow> VNum t)] \<and>
         rid = Scan_run_id s3 + 1 \<and>
         map_of args ''trajectories'' = None \<and>
         requests tr = [StartRun rid args] \<and>
         assignments tr = map (\<lambda>(p, path). SetTrajectory p path)
                            (zip (Scan_positioners s3) (Scan_paths s3)) \<and>
         (hooks_keep_scan h \<longrightarrow> s3 = s)"
    using Scan_run_cases[OF run] ev
  proof (elim disjE exE conjE)
    fix e
    assume "tr = [(CheckPaths, Raised e)]" "(StartRun rid args, out) \<in> set tr"
    then show ?thesis by simp
  next
    fix e s0 w0
    assume "tr = [(CheckPaths, Returned), (PreScan, Raised e)]" "(StartRun rid args, out) \<in> set tr"
    then show ?thesis by simp
  next
    fix s0 w0 s1 w1 t2 r2 s2 w2 rp
    assume cp: "checkPaths h s w = Some (Inr (), s0, w0)"
      and ps: "preScan h s0 w0 = Some (Inr (), s1, w1)"
      and body: "run_body h eng s1 w1 = Some (t2, r2, s2, w2)"
      and tr: "tr = [(CheckPaths, Returned), (PreScan, Returned)] @ t2 @
                [(PostScan, case rp of Inl e \<Rightarrow> Raised e | Inr _ \<Rightarrow> Returned)]"
      and ev: "(StartRun rid args, out) \<in> set tr"
    from ev have ev2: "(StartRun rid args, out) \<in> set t2" by (auto simp: tr)
    from run_body_request[OF body ev2] obtain sa wa sb wb t3 wc re where
      sd: "setupDetectors h s1 w1 = Some (Inr (), sa, wa)" and
      stg: "setupTriggers h sa wa = Some (Inr (), sb, wb)" and
      tj: "set_trajectories (zip (Scan_positioners sb) (Scan_paths sb)) wb = (t3, Inr (), wc)" and
      en: "eng rid args wc = Some (re, w2)" and
      out: "out = (case re of Inl e \<Rightarrow> Raised e | Inr d \<Rightarrow> ReturnedData d)" and
      args: "args = build_scan_args sb" and rid: "rid = priv_run_id sb + 1" and
      req: "requests t2 = [StartRun rid args]" and
      asg: "assignments t2 = map (\<lambda>(p, path). SetTrajectory p path)
                               (zip (Scan_positioners sb) (Scan_paths sb))"
      by blast
    have keep: "hooks_keep_scan h \<longrightarrow> sb = s"
      using cp ps sd stg unfolding hooks_keep_scan_def keeps_scan_def by metis
    have req': "requests tr = [StartRun rid args]"
      using req by (simp add: tr requests_def)
    have asg': "assignments tr = map (\<lambda>(p, path). SetTrajectory p path)
                               (zip (Scan_positioners sb) (Scan_paths sb))"
      using asg by (simp add: tr assignments_def)
    have args': "args = [(''detectors'', VRefs (Scan_detectors sb)),
                 (''triggers'', VRefs (Scan_triggers sb)),
                 (''positioners'', VRefs (Scan_positioners sb)),
                 (''settle_time'', case settle_time sb of None \<Rightarrow> VNone | Some t \<Rightarrow> VNum t)]"
      using args by (simp add: build_scan_args_def)
    have none: "map_of args ''trajectories'' = None" by (simp add: args')
    have rid': "rid = Scan_run_id sb + 1" using rid by (simp add: Scan_run_id_def)
    from cp ps sd stg tj en out args' rid' none req' asg' keep
    show ?thesis by blast
  qed
qed

text \<open>
  The claim at work on a scan whose \<^verbatim>\<open>setupDetectors\<close> selects detector 5: the
  request names that detector, and the trajectory goes to positioner 3.
\<close>

theorem request_contents_witness:
  "hooks_return (Scan_hooks\<lparr>setupDetectors := choose_detectors [5]\<rparr>) \<and>
   engine_returns echo_engine \<and>
   observed (Scan_run (Scan_hooks\<lparr>setupDetectors := choose_detectors [5]\<rparr>) echo_engine
      (set_paths [[1, 2]] (set_positioners [3] Scan_init)) quiet_world)
     = Some ([(CheckPaths, Returned), (PreScan, Returned), (SetupDetectors, Returned),
              (SetupTriggers, Returned), (SetTrajectory 3 [1, 2], Returned),
              (StartRun 1 [(''detectors'', VRefs [5]), (''triggers'', VRefs []),
                           (''positioners'', VRefs [3]), (''settle_time'', VNone)],
               ReturnedData (Dataset 1)),
              (PostScan, Returned)],
             Inr (), set_data (Some (Dataset 1))
                       (set_detectors (Some [5]) (set_paths [[1, 2]] (set_positioners [3] Scan_init)))) \<and>
   requests [(CheckPaths, Returned), (PreScan, Returned), (SetupDetectors, Returned),
              (SetupTriggers, Returned), (SetTrajectory 3 [1, 2], Returned),
              (StartRun 1 [(''detectors'', VRefs [5]), (''triggers'', VRefs []),
                           (''positioners'', VRefs [3]), (''settle_time'', VNone)],
               ReturnedData (Dataset 1)),
              (PostScan, Returned)]
     = [StartRun 1 [(''detectors'', VRefs [5]), (''triggers'', VRefs []),
                    (''positioners'', VRefs [3]), (''settle_time'', VNone)]] \<and>
   assignments [(CheckPaths, Returned), (PreScan, Returned), (SetupDetectors, Returned),
              (SetupTriggers, Returned), (SetTrajectory 3 [1, 2], Returned),
              (StartRun 1 [(''detectors'', VRefs [5]), (''triggers'', VRefs []),
                           (''positioners'', VRefs [3]), (''settle_time'', VNone)],
               ReturnedData (Dataset 1)),
              (PostScan, Returned)]
     = [SetTrajectory 3 [1, 2]]"
proof -
  let ?h = "Scan_hooks\<lparr>setupDetectors := choose_detectors [5]\<rparr>"
  let ?s0 = "set_paths [[1, 2]] (set_positioners [3] Scan_init)"
  let ?s1 = "set_data (Some (Dataset 1)) (set_detectors (Some [5]) ?s0)"
  let ?args = "[(''detectors'', VRefs [5]), (''triggers'', VRefs []),
                (''positioners'', VRefs [3]), (''settle_time'', VNone)]"
  let ?tr = "[(CheckPaths, Returned), (PreScan, Returned), (SetupDetectors, Returned),
              (SetupTriggers, Returned), (SetTrajectory 3 [1, 2], Returned),
              (StartRun 1 ?args, ReturnedData (Dataset 1)), (PostScan, Returned)]"
  have hr: "hooks_return ?h"
    using source_hooks_return(1) doubles_return(2) by (simp add: hooks_return_def)
  have er: "engine_returns echo_engine" by (rule doubles_return)
  have "\<exists>w'. Scan_run ?h echo_engine ?s0 quiet_world = Some (?tr, Inr (), ?s1, w')"
    by (simp add: run_unfold choose_detectors_def set_detectors_def set_paths_def
        set_positioners_def dev_set_trajectory_def quiet_world_def idle_positioner_def)
  then obtain w' where run: "Scan_run ?h echo_engine ?s0 quiet_world
          = Some (?tr, Inr (), ?s1, w')" by blast
  have ev: "(StartRun 1 ?args, ReturnedData (Dataset 1)) \<in> set ?tr" by simp
  from request_contents[of ?h echo_engine ?s0 quiet_world] run ev
  have "requests ?tr = [StartRun 1 ?args]" by blast
  moreover have "assignments ?tr = [SetTrajectory 3 [1, 2]]"
    by (simp add: assignments_def)
  ultimately show ?thesis using hr er run by (simp add: observed_def)
qed

text \<open>
  Claim C6 as stated fails: the request of a scan with one positioner and one trajectory
  has the keys detectors, triggers, positioners and settle_time, and no trajectories.
\<close>

theorem request_has_no_trajectories:
  "observed (Scan_run Scan_hooks echo_engine (set_paths [[1, 2]] (set_positioners [3] Scan_init))
      quiet_world)
     = Some ([(CheckPaths, Returned), (PreScan, Returned), (SetupDetectors, Returned),
              (SetupTriggers, Returned), (SetTrajectory 3 [1, 2], Returned),
              (StartRun 1 [(''detectors'', VRefs []), (''triggers'', VRefs []),
                           (''positioners'', VRefs [3]), (''settle_time'', VNone)],
               ReturnedData (Dataset 1)),
              (PostScan, Returned)],
             Inr (), set_data (Some (Dataset 1)) (set_paths [[1, 2]] (set_positioners [3] Scan_init))) \<and>
   map_of [(''detectors'', VRefs []), (''triggers'', VRefs []),
           (''positioners'', VRefs [3]), (''settle_time'', VNone)] ''trajectories'' = None"
  by (simp add: run_unfold set_paths_def set_positioners_def dev_set_trajectory_def
      quiet_world_def idle_positioner_def)

text \<open>
  Claim C7, as amended. Let no hook assign the dataset (none of Scan, AScan and DScan
  does). \<^verbatim>\<open>run\<close> returns whenever its hooks and the engine return, normally or by
  raising. In every run that returns: a recorded outcome of the dispatch is what the
  engine gave on that request; when the execution engine raised, the dataset the accessor
  returns after \<^verbatim>\<open>run\<close> is the one it returned before, \<^verbatim>\<open>postScan\<close> has run once,
  and the engine's error is the one \<^verbatim>\<open>run\<close> raises provided \<^verbatim>\<open>postScan\<close> returned
  normally; when the engine returned a dataset, the accessor returns exactly that dataset
  afterwards; and a run that ends without error is one in which the engine returned.
\<close>

theorem dataset_after_run:
  assumes "hooks_keep_data h"
  shows "(hooks_return h \<and> engine_returns eng \<longrightarrow>
            (\<exists>tr res s' w'. Scan_run h eng s w = Some (tr, res, s', w'))) \<and>
         (\<forall>tr res s' w'. Scan_run h eng s w = Some (tr, res, s', w') \<longrightarrow>
            (\<forall>rid args out. (StartRun rid args, out) \<in> set tr \<longrightarrow>
               (\<exists>wa re wb. eng rid args wa = Some (re, wb) \<and>
                  out = (case re of Inl e \<Rightarrow> Raised e | Inr d \<Rightarrow> ReturnedData d))) \<and>
            (\<forall>rid args e. (StartRun rid args, Raised e) \<in> set tr \<longrightarrow>
               Scan_data s' = Scan_data s \<and> calls_of PostScan tr = 1 \<and>
               ((PostScan, Returned) \<in> set tr \<longrightarrow> res = Inl e)) \<and>
            (\<forall>rid args d. (StartRun rid args, ReturnedData d) \<in> set tr \<longrightarrow>
               Scan_data s' = Some d) \<and>
            (res = Inr () \<longrightarrow> (\<exists>rid args d. (StartRun rid args, ReturnedData d) \<in> set tr)))"
proof (intro conjI impI allI)
  assume "hooks_return h \<and> engine_returns eng"
  then show "\<exists>tr res s' w'. Scan_run h eng s w = Some (tr, res, s', w')"
    using Scan_run_returns by blast
next
  fix tr res s' w'
  assume run: "Scan_run h eng s w = Some (tr, res, s', w')"
  have "(\<forall>rid args out. (StartRun rid args, out) \<in> set tr \<longrightarrow>
               (\<exists>wa re wb. eng rid args wa = Some (re, wb) \<and>
                  out = (case re of Inl e \<Rightarrow> Raised e | Inr d \<Rightarrow> ReturnedData d))) \<and>
        (\<forall>rid args e. (StartRun rid args, Raised e) \<in> set tr \<longrightarrow>
             Scan_data s' = Scan_data s \<and> calls_of PostScan tr = 1 \<and>
             ((PostScan, Returned) \<in> set tr \<longrightarrow> res = Inl e)) \<and>
         (\<forall>rid args d. (StartRun rid args, ReturnedData d) \<in> set tr \<longrightarrow>
             Scan_data s' = Some d) \<and>
         (res = Inr () \<longrightarrow> (\<exists>rid args d. (StartRun rid args, ReturnedData d) \<in> set tr))"
    using Scan_run_cases[OF run]
  proof (elim disjE exE conjE)
    fix e
    assume "tr = [(CheckPaths, Raised e)]" "res = Inl e"
    then show ?thesis by simp
  next
    fix e s0 w0
    assume "tr = [(CheckPaths, Returned), (PreScan, Raised e)]" "res = Inl e"
    then show ?thesis by simp
  next
    fix s0 w0 s1 w1 t2 r2 s2 w2 rp
    assume cp: "checkPaths h s w = Some (Inr (), s0, w0)"
      and ps: "preScan h s0 w0 = Some (Inr (), s1, w1)"
      and body: "run_body h eng s1 w1 = Some (t2, r2, s2, w2)"
      and post: "postScan h s2 w2 = Some (rp, s', w')"
      and tr: "tr = [(CheckPaths, Returned), (PreScan, Returned)] @ t2 @
                [(PostScan, case rp of Inl e \<Rightarrow> Raised e | Inr _ \<Rightarrow> Returned)]"
      and res: "res = (case rp of Inl e \<Rightarrow> Inl e | Inr _ \<Rightarrow> r2)"
    from assms have kd: "keeps_data (checkPaths h)" "keeps_data (preScan h)"
      "keeps_data (postScan h)" "keeps_data (setupDetectors h)" "keeps_data (setupTriggers h)"
      by (simp_all add: hooks_keep_data_def)
    from cp ps kd(1,2) have before: "priv_last_data s1 = priv_last_data s"
      unfolding keeps_data_def by metis
    from post kd(3) have after: "priv_last_data s' = priv_last_data s2"
      unfolding keeps_data_def by metis
    note data = run_body_data[OF body kd(4,5)]
    note calls = run_body_calls[OF body]
    have once: "calls_of PostScan tr = 1"
      using calls by (auto simp: tr calls_of_def filter_empty_conv)
    have engine: "\<exists>wa re wb. eng rid args wa = Some (re, wb) \<and>
                  out = (case re of Inl e \<Rightarrow> Raised e | Inr d \<Rightarrow> ReturnedData d)"
      if ev: "(StartRun rid args, out) \<in> set tr" for rid args out
    proof -
      from ev have "(StartRun rid args, out) \<in> set t2" by (auto simp: tr)
      from run_body_request[OF body this] show ?thesis by blast
    qed
    have raised: "Scan_data s' = Scan_data s \<and> calls_of PostScan tr = 1 \<and>
               ((PostScan, Returned) \<in> set tr \<longrightarrow> res = Inl e)"
      if ev: "(StartRun rid args, Raised e) \<in> set tr" for rid args e
    proof -
      from ev have ev2: "(StartRun rid args, Raised e) \<in> set t2"
        by (auto simp: tr split: sum.splits)
      from data ev2 before after have d: "Scan_data s' = Scan_data s"
        by (auto simp: Scan_data_def)
      from run_body_raised[OF body ev2] have r2: "r2 = Inl e" .
      have "res = Inl e" if "(PostScan, Returned) \<in> set tr"
        using that calls r2 by (cases rp) (auto simp: tr res)
      with d once show ?thesis by blast
    qed
    have returned: "Scan_data s' = Some d"
      if ev: "(StartRun rid args, ReturnedData d) \<in> set tr" for rid args d
    proof -
      from ev have "(StartRun rid args, ReturnedData d) \<in> set t2"
        by (auto simp: tr split: sum.splits)
      with data after show ?thesis by (auto simp: Scan_data_def)
    qed
    have success: "\<exists>rid args d. (StartRun rid args, ReturnedData d) \<in> set tr" if "res = Inr ()"
    proof -
      from that have "r2 = Inr ()" by (cases rp) (auto simp: res)
      with data obtain rid args d where "(StartRun rid args, ReturnedData d) \<in> set t2" by blast
      then show ?thesis by (auto simp: tr)
    qed
    from engine raised returned success show ?thesis by blast
  qed
  then show "\<And>rid args out. (StartRun rid args, out) \<in> set tr \<Longrightarrow>
               (\<exists>wa re wb. eng rid args wa = Some (re, wb) \<and>
                  out = (case re of Inl e \<Rightarrow> Raised e | Inr d \<Rightarrow> ReturnedData d))"
    and "\<And>rid args e. (StartRun rid args, Raised e) \<in> set tr \<Longrightarrow> Scan_data s' = Scan_data s"
    and "\<And>rid args e. (StartRun rid args, Raised e) \<in> set tr \<Longrightarrow> calls_of PostScan tr = 1"
    and "\<And>rid args e. (StartRun rid args, Raised e) \<in> set tr \<Longrightarrow> (PostScan, Returned) \<in> set tr
            \<Longrightarrow> res = Inl e"
    and "\<And>rid args d. (StartRun rid args, ReturnedData d) \<in> set tr \<Longrightarrow> Scan_data s' = Some d"
    and "res = Inr () \<Longrightarrow> \<exists>rid args d. (StartRun rid args, ReturnedData d) \<in> set tr"
    by blast+
qed

text \<open>
  The claim at work on a scan with a positioner and a dataset from an earlier run: the
  engine raises, the run returns with the engine's error after one \<^verbatim>\<open>postScan\<close>, and
  the dataset is the earlier one; with an engine that returns, the dataset is the new one.
\<close>

theorem dataset_after_run_witness:
  "hooks_keep_data Scan_hooks \<and> hooks_return Scan_hooks \<and>
   engine_returns (failing_engine ''engine'') \<and> engine_returns echo_engine \<and>
   observed (Scan_run Scan_hooks (failing_engine ''engine'')
               (set_data (Some (Dataset 7)) (set_paths [[1, 2]] (set_positioners [3] Scan_init)))
               quiet_world)
     = Some ([(CheckPaths, Returned), (PreScan, Returned), (SetupDetectors, Returned),
              (SetupTriggers, Returned), (SetTrajectory 3 [1, 2], Returned),
              (StartRun 1 [(''detectors'', VRefs []), (''triggers'', VRefs []),
                           (''positioners'', VRefs [3]), (''settle_time'', VNone)],
               Raised (Failure ''engine'')),
              (PostScan, Returned)],
             Inl (Failure ''engine''),
             set_data (Some (Dataset 7)) (set_paths [[1, 2]] (set_positioners [3] Scan_init))) \<and>
   Scan_data (set_data (Some (Dataset 7)) (set_paths [[1, 2]] (set_positioners [3] Scan_init)))
     = Some (Dataset 7) \<and>
   calls_of PostScan
       [(CheckPaths, Returned), (PreScan, Returned), (SetupDetectors, Returned),
        (SetupTriggers, Returned), (SetTrajectory 3 [1, 2], Returned),
        (StartRun 1 [(''detectors'', VRefs []), (''triggers'', VRefs []),
                     (''positioners'', VRefs [3]), (''settle_time'', VNone)],
         Raised (Failure ''engine'')),
        (PostScan, Returned)] = 1 \<and>
   (\<exists>tr s' w'. Scan_run Scan_hooks echo_engine
                  (set_data (Some (Dataset 7)) (set_paths [[1, 2]] (set_positioners [3] Scan_init)))
                  quiet_world = Some (tr, Inr (), s', w') \<and>
               Scan_data s' = Some (Dataset 1))"
proof -
  let ?s0 = "set_data (Some (Dataset 7)) (set_paths [[1, 2]] (set_positioners [3] Scan_init))"
  let ?args = "[(''detectors'', VRefs []), (''triggers'', VRefs []),
                (''positioners'', VRefs [3]), (''settle_time'', VNone)]"
  let ?tr = "[(CheckPaths, Returned), (PreScan, Returned), (SetupDetectors, Returned),
              (SetupTriggers, Returned), (SetTrajectory 3 [1, 2], Returned),
              (StartRun 1 ?args, Raised (Failure ''engine'')), (PostScan, Returned)]"
  let ?tr2 = "[(CheckPaths, Returned), (PreScan, Returned), (SetupDetectors, Returned),
              (SetupTriggers, Returned), (SetTrajectory 3 [1, 2], Returned),
              (StartRun 1 ?args, ReturnedData (Dataset 1)), (PostScan, Returned)]"
  have "\<exists>w'. Scan_run Scan_hooks (failing_engine ''engine'') ?s0 quiet_world
               = Some (?tr, Inl (Failure ''engine''), ?s0, w')"
    by (simp add: run_unfold set_paths_def set_positioners_def dev_set_trajectory_def
        quiet_world_def idle_positioner_def)
  then obtain wa where run: "Scan_run Scan_hooks (failing_engine ''engine'') ?s0 quiet_world
               = Some (?tr, Inl (Failure ''engine''), ?s0, wa)" by blast
  have "\<exists>s' w'. Scan_run Scan_hooks echo_engine ?s0 quiet_world = Some (?tr2, Inr (), s', w')"
    by (simp add: run_unfold set_paths_def set_positioners_def dev_set_trajectory_def
        quiet_world_def idle_positioner_def)
  then obtain sb wb where run2: "Scan_run Scan_hooks echo_engine ?s0 quiet_world
               = Some (?tr2, Inr (), sb, wb)" by blast
  have ev: "(StartRun 1 ?args, Raised (Failure ''engine'')) \<in> set ?tr" by simp
  have ev2: "(StartRun 1 ?args, ReturnedData (Dataset 1)) \<in> set ?tr2" by simp
  note keep = source_hooks_keep_data(1)
  from dataset_after_run[OF keep, of "failing_engine ''engine''" ?s0 quiet_world] run ev
  have c: "calls_of PostScan ?tr = 1" by blast
  from dataset_after_run[OF keep, of echo_engine ?s0 quiet_world] run2 ev2
  have d: "Scan_data sb = Some (Dataset 1)" by blast
  have e: "\<exists>tr s' w'. Scan_run Scan_hooks echo_engine ?s0 quiet_world = Some (tr, Inr (), s', w') \<and>
               Scan_data s' = Some (Dataset 1)"
    using run2 d by blast
  from run keep c e source_hooks_return(1) doubles_return(3,4) show ?thesis
    by (simp add: observed_def Scan_data_def set_data_def)
qed

text \<open>
  Claim C7 as stated fails where it says the engine's error propagates after teardown:
  when \<^verbatim>\<open>postScan\<close> raises as well, the caller receives the error of the teardown.
\<close>

theorem engine_error_replaced_by_teardown:
  "observed (Scan_run (Scan_hooks\<lparr>postScan := raising ''teardown''\<rparr>) (failing_engine ''engine'')
               Scan_init quiet_world)
     = Some ([(CheckPaths, Returned), (PreScan, Returned), (SetupDetectors, Returned),
              (SetupTriggers, Returned),
              (StartRun 1 [(''detectors'', VRefs []), (''triggers'', VRefs []),
                           (''positioners'', VRefs []), (''settle_time'', VNone)],
               Raised (Failure ''engine'')),
              (PostScan, Raised (Failure ''teardown''))],
             Inl (Failure ''teardown''), Scan_init)"
  by (simp add: run_unfold)

section \<open>The differential scan\<close>

lemma read_positions_Inr:
  "read_positions ps w = Inr xs \<Longrightarrow> xs = map (\<lambda>p. position (devices w p)) ps"
  by (induction ps arbitrary: xs)
     (auto simp: dev_position_def split: sum.splits if_splits)

lemma DScan_preScan_Inr:
  assumes "DScan_preScan s w = Some (Inr (), s1, w1)"
  shows "priv_start_positions s1 = Some (map (\<lambda>p. position (devices w p)) (Scan_positioners s)) \<and>
         Scan_paths s1 = map (\<lambda>(path, p0). map (\<lambda>r. r + p0) path)
                           (zip (Scan_paths s) (map (\<lambda>p. position (devices w p)) (Scan_positioners s))) \<and>
         Scan_positioners s1 = Scan_positioners s"
proof (cases "read_positions (Scan_positioners s) w")
  case (Inl e)
  with assms show ?thesis by (simp add: DScan_preScan_def)
next
  case (Inr starts)
  note starts = read_positions_Inr[OF Inr]
  from assms Inr have "s1 = set_paths (map (\<lambda>(path, start). map (\<lambda>r. r + start) path)
                                (zip (Scan_paths (s\<lparr>priv_start_positions := Some starts\<rparr>)) starts))
                             (s\<lparr>priv_start_positions := Some starts\<rparr>)"
    by (auto simp: DScan_preScan_def Let_def dest!: AScan_preScan_scan)
  then show ?thesis
    by (simp add: starts set_paths_def Scan_paths_def Scan_positioners_def)
qed

lemma move_back_all:
  assumes "\<forall>q\<in>set qs. online (devices w (fst q)) \<and> snd q = f (fst q)"
  shows "\<exists>w'. move_back qs w = (Inr (), w') \<and>
           move_log w' = move_log w @ map (\<lambda>q. (fst q, snd q, True)) qs \<and>
           (\<forall>p. online (devices w' p) = online (devices w p)) \<and>
           (\<forall>p\<in>fst ` set qs. position (devices w' p) = f p \<and> \<not> moving (devices w' p)) \<and>
           (\<forall>p. p \<notin> fst ` set qs \<longrightarrow> devices w' p = devices w p)"
  using assms
proof (induction qs arbitrary: w)
  case Nil
  then show ?case by simp
next
  case (Cons q qs)
  obtain p x where q: "q = (p, x)" by (cases q) auto
  from Cons.prems q have on: "online (devices w p)" and x: "x = f p" by auto
  define w1 where "w1 = w\<lparr>devices := (devices w)(p := (devices w p)\<lparr>position := x, setpoint := x, moving := False\<rparr>),
                          move_log := move_log w @ [(p, x, True)]\<rparr>"
  have step: "dev_move p x True w = (Inr (), w1)"
    using on by (simp add: dev_move_def w1_def Let_def)
  have on1: "\<forall>r. online (devices w1 r) = online (devices w r)"
    by (simp add: w1_def)
  from Cons.prems on1 have "\<forall>q\<in>set qs. online (devices w1 (fst q)) \<and> snd q = f (fst q)" by simp
  from Cons.IH[OF this] obtain w' where
    mb: "move_back qs w1 = (Inr (), w')" and
    lg: "move_log w' = move_log w1 @ map (\<lambda>q. (fst q, snd q, True)) qs" and
    on': "\<forall>r. online (devices w' r) = online (devices w1 r)" and
    pos: "\<forall>r\<in>fst ` set qs. position (devices w' r) = f r \<and> \<not> moving (devices w' r)" and
    oth: "\<forall>r. r \<notin> fst ` set qs \<longrightarrow> devices w' r = devices w1 r"
    by blast
  have "move_back (q # qs) w = (Inr (), w')" using step mb by (simp add: q)
  moreover have "move_log w' = move_log w @ map (\<lambda>q. (fst q, snd q, True)) (q # qs)"
    using lg by (simp add: w1_def q)
  moreover have "\<forall>r. online (devices w' r) = online (devices w r)" using on' on1 by simp
  moreover have "\<forall>r\<in>fst ` set (q # qs). position (devices w' r) = f r \<and> \<not> moving (devices w' r)"
  proof
    fix r assume r: "r \<in> fst ` set (q # qs)"
    show "position (devices w' r) = f r \<and> \<not> moving (devices w' r)"
    proof (cases "r \<in> fst ` set qs")
      case True
      with pos show ?thesis by blast
    next
      case False
      with r q have "r = p" by auto
      with False oth x show ?thesis by (simp add: w1_def)
    qed
  qed
  moreover have "\<forall>r. r \<notin> fst ` set (q # qs) \<longrightarrow> devices w' r = devices w r"
    using oth by (auto simp: q w1_def)
  ultimately show ?case by blast
qed

lemma read_moving_all:
  "\<forall>p\<in>set ps. online (devices w p) \<Longrightarrow>
   read_moving ps w = Inr (map (\<lambda>p. moving (devices w p)) ps)"
  by (induction ps) (auto simp: dev_moving_def)

lemma wait_while_moving_idle:
  assumes "\<forall>p\<in>set ps. online (devices w p) \<and> \<not> moving (devices w p)"
  shows "wait_while_moving tick ps w = Some (Inr (), w)"
proof -
  from assms have rm: "read_moving ps w = Inr (map (\<lambda>p. moving (devices w p)) ps)"
    by (intro read_moving_all) simp
  from assms have "\<not> list_ex (\<lambda>b. b) (map (\<lambda>p. moving (devices w p)) ps)"
    by (simp add: list_ex_iff)
  with rm show ?thesis by (subst wait_while_moving.simps) simp
qed

text \<open>
  Claim C4. \<^verbatim>\<open>DScan.preScan\<close> captures the current position \<open>p0\<close> of every positioner
  of the scan and replaces the trajectories, pairwise along
  \<^verbatim>\<open>zip(paths, start_positions)\<close>, by the trajectories with \<open>p0\<close> added to every
  point; with one trajectory per positioner, as the generator produces them, every
  trajectory is replaced. Whatever the scan did to the positioners in between,
  \<^verbatim>\<open>DScan.postScan\<close> then commands every positioner back to its captured position by
  a move with \<^verbatim>\<open>wait=True\<close>, in order, and returns; afterwards every positioner
  reports its original position and is not moving. The positioners are reachable at
  teardown, and the scan object still holds the positioners and captured positions that
  \<^verbatim>\<open>preScan\<close> left.
\<close>

theorem differential_scan_roundtrip:
  assumes pre: "DScan_preScan s w = Some (Inr (), s1, w1)"
    and same: "Scan_positioners s2 = Scan_positioners s1"
              "priv_start_positions s2 = priv_start_positions s1"
    and on: "\<forall>p\<in>set (Scan_positioners s). online (devices w2 p)"
  shows "priv_start_positions s1 = Some (map (\<lambda>p. position (devices w p)) (Scan_positioners s)) \<and>
         Scan_paths s1 = map (\<lambda>(path, p0). map (\<lambda>r. r + p0) path)
                           (zip (Scan_paths s) (map (\<lambda>p. position (devices w p)) (Scan_positioners s))) \<and>
         (length (Scan_paths s) = length (Scan_positioners s) \<longrightarrow>
            length (Scan_paths s1) = length (Scan_paths s) \<and>
            (\<forall>i<length (Scan_paths s).
               Scan_paths s1 ! i =
                 map (\<lambda>r. r + position (devices w (Scan_positioners s ! i))) (Scan_paths s ! i))) \<and>
         (\<exists>w3. DScan_postScan tick s2 w2 = Some (Inr (), s2, w3) \<and>
                move_log w3 = move_log w2 @
                  map (\<lambda>p. (p, position (devices w p), True)) (Scan_positioners s) \<and>
                (\<forall>p\<in>set (Scan_positioners s).
                   position (devices w3 p) = position (devices w p) \<and> \<not> moving (devices w3 p)))"
proof -
  let ?ps = "Scan_positioners s"
  let ?f = "\<lambda>p. position (devices w p)"
  note P = DScan_preScan_Inr[OF pre]
  from P have starts: "priv_start_positions s1 = Some (map ?f ?ps)"
    and paths: "Scan_paths s1 = map (\<lambda>(path, p0). map (\<lambda>r. r + p0) path)
                           (zip (Scan_paths s) (map ?f ?ps))"
    and ps1: "Scan_positioners s1 = ?ps" by simp_all
  have each: "length (Scan_paths s1) = length (Scan_paths s) \<and>
            (\<forall>i<length (Scan_paths s).
               Scan_paths s1 ! i = map (\<lambda>r. r + ?f (?ps ! i)) (Scan_paths s ! i))"
    if "length (Scan_paths s) = length ?ps"
    using that by (simp add: paths)
  let ?qs = "zip ?ps (map ?f ?ps)"
  have qs: "\<forall>q\<in>set ?qs. online (devices w2 (fst q)) \<and> snd q = ?f (fst q)"
    using on by (auto simp: in_set_zip)
  from move_back_all[OF qs] obtain wa where
    mb: "move_back ?qs w2 = (Inr (), wa)" and
    lg: "move_log wa = move_log w2 @ map (\<lambda>q. (fst q, snd q, True)) ?qs" and
    on': "\<forall>p. online (devices wa p) = online (devices w2 p)" and
    pos: "\<forall>p\<in>fst ` set ?qs. position (devices wa p) = ?f p \<and> \<not> moving (devices wa p)"
    by blast
  have fst_qs: "fst ` set ?qs = set ?ps"
    by (simp add: zip_map2 image_image flip: set_map) (simp add: zip_same_conv_map image_image)
  have lg': "map (\<lambda>q. (fst q, snd q, True)) ?qs = map (\<lambda>p. (p, ?f p, True)) ?ps"
    by (simp add: zip_map2 zip_same_conv_map)
  let ?wb = "print (newline @ ''Moving positioners back to start positions.'') wa"
  have idle: "\<forall>p\<in>set ?ps. online (devices ?wb p) \<and> \<not> moving (devices ?wb p)"
    using pos on on' fst_qs by (simp add: print_def)
  from wait_while_moving_idle[OF idle]
  have wt: "wait_while_moving tick ?ps ?wb = Some (Inr (), ?wb)" .
  have post: "DScan_postScan tick s2 w2 = Some (Inr (), s2, print ''Done.'' ?wb)"
    using same starts ps1 mb wt by (simp add: DScan_postScan_def Let_def)
  have "move_log (print ''Done.'' ?wb) = move_log w2 @ map (\<lambda>p. (p, ?f p, True)) ?ps"
    using lg lg' by (simp add: print_def)
  moreover have "\<forall>p\<in>set ?ps. position (devices (print ''Done.'' ?wb) p) = ?f p \<and>
                   \<not> moving (devices (print ''Done.'' ?wb) p)"
    using pos fst_qs by (simp add: print_def)
  ultimately show ?thesis using starts paths each post by blast
qed

theorem differential_scan_roundtrip_witness:
  "(\<exists>w1. DScan_preScan (set_paths [[0, 1], [0, 5]] (set_positioners [0, 1] Scan_init)) lab_world
          = Some (Inr (),
                  set_paths [[10, 11], [20, 25]]
                    ((set_paths [[0, 1], [0, 5]] (set_positioners [0, 1] Scan_init))
                       \<lparr>priv_start_positions := Some [10, 20]\<rparr>), w1)) \<and>
   list_all (\<lambda>p. online (devices scanned_world p))
     (Scan_positioners (set_paths [[0, 1], [0, 5]] (set_positioners [0, 1] Scan_init))) \<and>
   (\<exists>w3. DScan_postScan no_tick
            (set_paths [[10, 11], [20, 25]]
               ((set_paths [[0, 1], [0, 5]] (set_positioners [0, 1] Scan_init))
                  \<lparr>priv_start_positions := Some [10, 20]\<rparr>)) scanned_world
          = Some (Inr (),
                  set_paths [[10, 11], [20, 25]]
                    ((set_paths [[0, 1], [0, 5]] (set_positioners [0, 1] Scan_init))
                       \<lparr>priv_start_positions := Some [10, 20]\<rparr>), w3) \<and>
          position (devices w3 0) = 10 \<and> position (devices w3 1) = 20 \<and>
          move_log w3 = [(0, 10, True), (1, 20, True)])"
proof -
  let ?s0 = "set_paths [[0, 1], [0, 5]] (set_positioners [0, 1] Scan_init)"
  let ?s1 = "set_paths [[10, 11], [20, 25]] (?s0\<lparr>priv_start_positions := Some [10, 20]\<rparr>)"
  have "\<exists>w1. DScan_preScan ?s0 lab_world = Some (Inr (), ?s1, w1)"
    by (simp add: DScan_preScan_def AScan_preScan_def olog_log_def print_def Let_def
        dev_position_def lab_world_def quiet_world_def idle_positioner_def set_paths_def
        set_positioners_def Scan_init_def Scan_paths_def Scan_positioners_def pv_lines_def)
  then obtain w1 where pre: "DScan_preScan ?s0 lab_world = Some (Inr (), ?s1, w1)" by blast
  have ps: "Scan_positioners ?s0 = [0, 1]"
    by (simp add: Scan_positioners_def set_paths_def set_positioners_def)
  have on: "\<forall>p\<in>set (Scan_positioners ?s0). online (devices scanned_world p)"
    unfolding ps by (simp add: scanned_world_def idle_positioner_def)
  from differential_scan_roundtrip[OF pre refl refl on, of no_tick]
  obtain w3 where
    post: "DScan_postScan no_tick ?s1 scanned_world = Some (Inr (), ?s1, w3)" and
    lg: "move_log w3 = move_log scanned_world @
           map (\<lambda>p. (p, position (devices lab_world p), True)) (Scan_positioners ?s0)" and
    pos: "\<forall>p\<in>set (Scan_positioners ?s0).
            position (devices w3 p) = position (devices lab_world p) \<and> \<not> moving (devices w3 p)"
    by blast
  from pos[unfolded ps] have "position (devices w3 0) = 10 \<and> position (devices w3 1) = 20"
    by (simp add: lab_world_def)
  moreover from lg[unfolded ps] have "move_log w3 = [(0, 10, True), (1, 20, True)]"
    by (simp add: lab_world_def scanned_world_def quiet_world_def)
  ultimately have "\<exists>w3. DScan_postScan no_tick ?s1 scanned_world = Some (Inr (), ?s1, w3) \<and>
          position (devices w3 0) = 10 \<and> position (devices w3 1) = 20 \<and>
          move_log w3 = [(0, 10, True), (1, 20, True)]"
    using post by blast
  moreover have "\<exists>w1. DScan_preScan ?s0 lab_world = Some (Inr (), ?s1, w1)" using pre by blast
  moreover have "list_all (\<lambda>p. online (devices scanned_world p)) (Scan_positioners ?s0)"
    using on by (simp add: list_all_iff)
  ultimately show ?thesis by blast
qed

end
